theory Spec2Isabelle
  imports Main
begin

section \<open>The data model\<close>

subsection \<open>DOM nodes\<close>

text \<open>
  The node tree of the underlying XML library, as far as \<^verbatim>\<open>parser.ts\<close> and
  \<^verbatim>\<open>base.ts\<close> read and build it: an attribute has a node name, a prefix
  (\<^verbatim>\<open>null\<close> when it has none), a namespace URI and a value; a node is an element
  (node type 1) or a text node (node type 3). Comments, processing instructions and
  CDATA sections are not modelled.

  The namespace URI of an element is the value that \<^verbatim>\<open>createElementNS\<close> was
  given. In the trees of the XML parser it is a string. \<^verbatim>\<open>toXmlObject\<close> reads it
  from an object literal (\<^verbatim>\<open>nsDef[ns]\<close>), where it can also be the member of
  \<^verbatim>\<open>Object.prototype\<close> of that name, which is no string.

  A node is a value here: a tree has no parent pointers and no identity. In the library,
  \<^verbatim>\<open>appendChild\<close> of a node that has a parent takes it out of that parent first;
  \<^verbatim>\<open>toXmlObject\<close> appends only the nodes its recursive calls return, which are
  new except for the stored source node of an instance with raw output. So what is said
  below of the children of an element is said of instances without raw output only.
\<close>

datatype attrNode = AttrNode (attrNodeName: string) (attrPrefix: "string option")
  (attrNamespaceURI: "string option") (attrValue: string)

datatype nsValue = URI string | Member string

datatype node =
    Element (nodeName: string) (prefix: "string option") (namespaceURI: "nsValue option")
      (attributes: "attrNode list") (childNodes: "node list")
  | TextNode string

subsection \<open>JavaScript values and objects\<close>

text \<open>
  Property values. Numbers are kept abstract (type \<open>'n\<close>); the two built-in
  functions on them that the code calls, \<^verbatim>\<open>parseFloat\<close> and
  \<^verbatim>\<open>Number.prototype.toString\<close>, are parameters of the functions below.
  \<open>'r\<close> is the type of object references.
\<close>

datatype ('n, 'r) jsval =
    VUndefined | VNull | VBool bool | VNum 'n | VStr string | VObj 'r
  | VArr "('n, 'r) jsval list"

text \<open>\<^verbatim>\<open>isNil\<close> of \<^verbatim>\<open>utils.ts\<close>.\<close>

fun isNil :: "('n, 'r) jsval \<Rightarrow> bool" where
  "isNil VUndefined = True"
| "isNil VNull = True"
| "isNil _ = False"

text \<open>
  A prototype object is identified by the class names from its own class up the
  prototype chain; \<open>[]\<close> is \<^verbatim>\<open>Object.prototype\<close> and
  \<^verbatim>\<open>Object.getPrototypeOf\<close> is \<open>tl\<close>. A class is identified with its
  \<^verbatim>\<open>prototype\<close>.
\<close>

type_synonym proto = "string list"

definition XMLElement :: proto where
  "XMLElement = [''XMLElement'']"

text \<open>
  The objects \<^verbatim>\<open>parseXMLElement\<close> creates are fresh and unshared, so its result
  is a tree: the class, the own properties (\<open>VUndefined\<close> where unset), and the two
  fields \<^verbatim>\<open>nsURI\<close> and \<^verbatim>\<open>rawDom\<close> of \<^verbatim>\<open>XMLElement\<close>.
\<close>

datatype 'n inst = Inst (i_cls: proto) (i_props: "string \<Rightarrow> ('n, 'n inst) jsval")
  (i_nsURI: "nsValue option") (i_rawDom: "node option")

text \<open>
  The serializer runs on objects that may share and may be circular: they live in a
  store, a list indexed by address.
\<close>

type_synonym addr = nat

record 'n obj =
  cls :: proto
  props :: "string \<Rightarrow> ('n, addr) jsval"
  nsURI :: "string option"
  rawDom :: "node option"
  isSerializing :: bool

type_synonym 'n heap = "'n obj list"

subsection \<open>Errors\<close>

text \<open>
  One constructor for each \<^verbatim>\<open>throw\<close> of the two engines (the class name and the
  counts of the messages are left out), two for the wrapper classes of
  \<^verbatim>\<open>errors.ts\<close>, which carry the inner message, and one for the
  \<^verbatim>\<open>TypeError\<close> that the runtime raises.
\<close>

datatype error =
    TagMustBeDefined                  \<comment> \<open>\<^verbatim>\<open>Tag must be defined on every node\<close>\<close>
  | MultipleAttribute string          \<comment> \<open>\<^verbatim>\<open>Multiple attribute "fieldName"\<close>\<close>
  | AttrMustBeDefined "string option" \<comment> \<open>\<^verbatim>\<open>cls.prop: @Attr must be defined\<close>\<close>
  | UnknownEnumValue string string    \<comment> \<open>\<^verbatim>\<open>cls.prop: Unknown enum value v\<close>\<close>
  | RequiredTextNotExists             \<comment> \<open>\<^verbatim>\<open>Required text content not exists\<close>\<close>
  | TooFewChildNode string            \<comment> \<open>\<^verbatim>\<open>Too few child node "tag"\<close>\<close>
  | TooManyChildNode string           \<comment> \<open>\<^verbatim>\<open>Too many child node "tag"\<close>\<close>
  | RequiredAttributeNotExists "string option"
                                      \<comment> \<open>\<^verbatim>\<open>Required attribute "name" not exists\<close>\<close>
  | MissingTagDecorator               \<comment> \<open>\<^verbatim>\<open>missing Tag decorator\<close>\<close>
  | NotAnXMLElementInstance           \<comment> \<open>\<^verbatim>\<open>not an XMLElement instance\<close>\<close>
  | CircularReference                 \<comment> \<open>\<^verbatim>\<open>circular reference detected\<close>\<close>
  | MissingChildObject string         \<comment> \<open>\<^verbatim>\<open>cls.prop: missing child object\<close>\<close>
  | MaxOccurMustNotBe1 string         \<comment> \<open>\<^verbatim>\<open>maxOccur must not equal to 1 if using array type\<close>\<close>
  | TooManyChildObjects string        \<comment> \<open>\<^verbatim>\<open>too many child objects\<close>\<close>
  | TooFewChildObjects string         \<comment> \<open>\<^verbatim>\<open>too few child objects\<close>\<close>
  | MaxOccurMustBe1 string            \<comment> \<open>\<^verbatim>\<open>maxOccur must equal to 1 if not using array type\<close>\<close>
  | InvalidChildObjectType string     \<comment> \<open>\<^verbatim>\<open>invalid child object type\<close>\<close>
  | TextPropertyMustBeString          \<comment> \<open>\<^verbatim>\<open>text property must be string\<close>\<close>
  | MissingTextProperty               \<comment> \<open>\<^verbatim>\<open>missing text property\<close>\<close>
  | CustomParseError string
  | CustomValidationError string
  | TypeError



subsection \<open>Metadata\<close>

text \<open>
  The interfaces of \<^verbatim>\<open>metadata.ts\<close>. Field names carry the prefix of their
  interface (\<open>a_\<close> for \<^verbatim>\<open>AttrDef\<close>, \<open>c_\<close> for \<^verbatim>\<open>ChildDef\<close>, \<open>t_\<close> for
  \<^verbatim>\<open>TextValueDef\<close>, \<open>md_\<close> for \<^verbatim>\<open>XMLMetadata\<close>). An optional field is an
  \<open>option\<close>; an optional boolean is \<open>False\<close> when absent. A callback that throws
  returns the message of what it threw.
\<close>

datatype 'n enumMember = EnumStr string | EnumNum 'n

datatype 'n attrTyp = TString | TBoolean | TNumber | TEnum "'n enumMember list"

record 'n ValueConverterDef =
  toProp :: "string \<Rightarrow> string + ('n, 'n inst) jsval"
  toAttr :: "('n, addr) jsval \<Rightarrow> string + string"

type_synonym 'n ValidatorDef = "('n, 'n inst) jsval \<Rightarrow> string option"

record 'n AttrDef =
  a_prop :: string
  a_defined :: bool
  a_name :: "string option"
  a_typ :: "'n attrTyp option"
  a_required :: bool
  a_converter :: "'n ValueConverterDef option"
  a_validator :: "'n ValidatorDef list option"
  a_ns :: "string option"
  a_nsURI :: "string option"

datatype maxOccur = Limited nat | Unlimited

record ChildDef =
  c_prop :: string
  c_clazz :: proto
  c_minOccur :: nat
  c_maxOccur :: maxOccur

record TextValueDef =
  t_prop :: string
  t_required :: bool

text \<open>
  \<open>md_attrs\<close> and \<open>md_children\<close> are the \<^verbatim>\<open>Object.values\<close> of the two
  records of the source, in their order.
\<close>

record 'n XMLMetadata =
  md_defined :: bool
  md_name :: "string option"
  md_tag :: "string option"
  md_ns :: "string option"
  md_attrs :: "'n AttrDef list"
  md_children :: "ChildDef list"
  md_text :: "TextValueDef option"
  md_attrNameGen :: "(string \<Rightarrow> string) option"
  md_nsURI :: "string option"
  md_readyFunc :: "('n inst \<Rightarrow> string + 'n inst) option"
  md_rawOutput :: bool

text \<open>
  The metadata store: what \<^verbatim>\<open>Reflect.getOwnMetadata(XML_MD_KEY, target)\<close>
  returns for each prototype. The decorators fill it; here it is a parameter.
\<close>

type_synonym 'n store = "proto \<Rightarrow> 'n XMLMetadata option"

definition emptyMetadata :: "'n XMLMetadata" where
  "emptyMetadata = \<lparr>md_defined = False, md_name = None, md_tag = None, md_ns = None,
     md_attrs = [], md_children = [], md_text = None, md_attrNameGen = None,
     md_nsURI = None, md_readyFunc = None, md_rawOutput = False\<rparr>"

definition getMetadata :: "'n store \<Rightarrow> proto \<Rightarrow> 'n XMLMetadata" where
  "getMetadata R target = (case R target of Some md \<Rightarrow> md | None \<Rightarrow> emptyMetadata)"

text \<open>
  The loop header shared by the six schema walks:
  \<^verbatim>\<open>for (obj = target.prototype; obj !== Object.prototype; obj = Object.getPrototypeOf(obj))\<close>.
\<close>

fun protoChain :: "proto \<Rightarrow> proto list" where
  "protoChain [] = []"
| "protoChain (c # r) = (c # r) # protoChain r"

subsection \<open>Plain objects used as maps\<close>

text \<open>
  \<^verbatim>\<open>attrMap\<close> and \<^verbatim>\<open>childMap\<close> are object literals
  (\<^verbatim>\<open>const map: Record<string, ...> = {}\<close>): reading a key that is no own property
  finds the members that every object inherits from \<^verbatim>\<open>Object.prototype\<close>. The own
  properties are an association list in insertion order.
\<close>

definition objectPrototypeKeys :: "string list" where
  "objectPrototypeKeys = [''constructor'', ''__proto__'', ''hasOwnProperty'',
     ''isPrototypeOf'', ''propertyIsEnumerable'', ''toLocaleString'', ''toString'',
     ''valueOf'', ''__defineGetter__'', ''__defineSetter__'', ''__lookupGetter__'',
     ''__lookupSetter__'']"

datatype 'a lookup = Own 'a | Inherited | Absent

definition recGet :: "(string \<times> 'a) list \<Rightarrow> string \<Rightarrow> 'a lookup" where
  "recGet m k = (case map_of m k of Some v \<Rightarrow> Own v
     | None \<Rightarrow> if k \<in> set objectPrototypeKeys then Inherited else Absent)"

fun recUpdate :: "(string \<times> 'a) list \<Rightarrow> string \<Rightarrow> 'a \<Rightarrow> (string \<times> 'a) list" where
  "recUpdate [] k v = [(k, v)]"
| "recUpdate ((k', v') # m) k v = (if k' = k then (k, v) # m else (k', v') # recUpdate m k v)"

section \<open>Schema resolution\<close>

subsection \<open>The deserializer's maps (\<^verbatim>\<open>parser.ts\<close>)\<close>

record 'n AttrMapEntry = "'n AttrDef" +
  exist :: bool

record 'n ChildMapEntry = ChildDef +
  result :: "'n inst list"

text \<open>\<^verbatim>\<open>{...attrDef, name: attrName, exist: false}\<close>\<close>

definition mkAttrMapEntry :: "'n AttrDef \<Rightarrow> string \<Rightarrow> 'n AttrMapEntry" where
  "mkAttrMapEntry attrDef attrName =
     AttrDef.extend (attrDef\<lparr>a_name := Some attrName\<rparr>) (AttrMapEntry.fields False)"

text \<open>\<^verbatim>\<open>{...childDef, result: []}\<close>\<close>

definition mkChildMapEntry :: "ChildDef \<Rightarrow> 'n ChildMapEntry" where
  "mkChildMapEntry childDef = ChildDef.extend childDef (ChildMapEntry.fields [])"

text \<open>
  The name of an attribute binding: its own name unless that is absent or empty, else the
  generator of the level's metadata applied to the property, else the property.
\<close>

definition attrNameOf :: "'n XMLMetadata \<Rightarrow> ('n, 'z) AttrDef_scheme \<Rightarrow> string" where
  "attrNameOf md attrDef =
     (case a_name attrDef of
        Some n \<Rightarrow> if n \<noteq> [] then n
                  else (case md_attrNameGen md of Some g \<Rightarrow> g (a_prop attrDef)
                        | None \<Rightarrow> a_prop attrDef)
      | None \<Rightarrow> (case md_attrNameGen md of Some g \<Rightarrow> g (a_prop attrDef)
                 | None \<Rightarrow> a_prop attrDef))"

text \<open>The inner loop of \<^verbatim>\<open>getAttrMap\<close>, over the bindings of one level.\<close>

fun getAttrMapLevel :: "'n XMLMetadata \<Rightarrow> 'n AttrDef list
    \<Rightarrow> (string \<times> 'n AttrMapEntry) list \<Rightarrow> (string \<times> 'n AttrMapEntry) list" where
  "getAttrMapLevel md [] m = m"
| "getAttrMapLevel md (attrDef # ds) m =
     (let attrName = attrNameOf md attrDef in
      case recGet m attrName of
        Absent \<Rightarrow> getAttrMapLevel md ds (m @ [(attrName, mkAttrMapEntry attrDef attrName)])
      | _ \<Rightarrow> getAttrMapLevel md ds m)"

fun getAttrMapChain :: "'n store \<Rightarrow> proto list
    \<Rightarrow> (string \<times> 'n AttrMapEntry) list \<Rightarrow> (string \<times> 'n AttrMapEntry) list" where
  "getAttrMapChain R [] m = m"
| "getAttrMapChain R (obj # objs) m =
     getAttrMapChain R objs (getAttrMapLevel (getMetadata R obj) (md_attrs (getMetadata R obj)) m)"

definition getAttrMap :: "'n store \<Rightarrow> proto \<Rightarrow> (string \<times> 'n AttrMapEntry) list" where
  "getAttrMap R target = getAttrMapChain R (protoChain target) []"

text \<open>
  The inner loop of \<^verbatim>\<open>getChildMap\<close>: the key is the tag of the child's class, which
  must have one.
\<close>

fun getChildMapLevel :: "'n store \<Rightarrow> ChildDef list
    \<Rightarrow> (string \<times> 'n ChildMapEntry) list \<Rightarrow> error + (string \<times> 'n ChildMapEntry) list" where
  "getChildMapLevel R [] m = Inr m"
| "getChildMapLevel R (childDef # ds) m =
     (case md_tag (getMetadata R (c_clazz childDef)) of
        None \<Rightarrow> Inl TagMustBeDefined
      | Some tag \<Rightarrow>
          (case recGet m tag of
             Absent \<Rightarrow> getChildMapLevel R ds (m @ [(tag, mkChildMapEntry childDef)])
           | _ \<Rightarrow> getChildMapLevel R ds m))"

fun getChildMapChain :: "'n store \<Rightarrow> proto list
    \<Rightarrow> (string \<times> 'n ChildMapEntry) list \<Rightarrow> error + (string \<times> 'n ChildMapEntry) list" where
  "getChildMapChain R [] m = Inr m"
| "getChildMapChain R (obj # objs) m =
     (case getChildMapLevel R (md_children (getMetadata R obj)) m of
        Inl e \<Rightarrow> Inl e
      | Inr m' \<Rightarrow> getChildMapChain R objs m')"

definition getChildMap :: "'n store \<Rightarrow> proto \<Rightarrow> error + (string \<times> 'n ChildMapEntry) list" where
  "getChildMap R target = getChildMapChain R (protoChain target) []"

text \<open>\<^verbatim>\<open>getTextValueDef\<close>, the same in both files: the first level that has one.\<close>

fun getTextValueDefChain :: "'n store \<Rightarrow> proto list \<Rightarrow> TextValueDef option" where
  "getTextValueDefChain R [] = None"
| "getTextValueDefChain R (obj # objs) =
     (case md_text (getMetadata R obj) of
        Some t \<Rightarrow> Some t
      | None \<Rightarrow> getTextValueDefChain R objs)"

definition getTextValueDef :: "'n store \<Rightarrow> proto \<Rightarrow> TextValueDef option" where
  "getTextValueDef R target = getTextValueDefChain R (protoChain target)"

subsection \<open>The serializer's lists (\<^verbatim>\<open>base.ts\<close>)\<close>

text \<open>\<^verbatim>\<open>AttrEntry\<close>: a binding with the metadata of the level it comes from.\<close>

record 'n AttrEntry = "'n AttrDef" +
  e_md :: "'n XMLMetadata"

definition mkAttrEntry :: "'n AttrDef \<Rightarrow> 'n XMLMetadata \<Rightarrow> 'n AttrEntry" where
  "mkAttrEntry attrDef m = AttrDef.extend attrDef (AttrEntry.fields m)"

text \<open>
  The inner loop of \<^verbatim>\<open>getAttrList\<close>; \<open>propSet\<close> is the \<^verbatim>\<open>Set\<close> of the
  properties seen so far.
\<close>

fun getAttrListLevel :: "'n XMLMetadata \<Rightarrow> 'n AttrDef list \<Rightarrow> 'n AttrEntry list \<times> string set
    \<Rightarrow> 'n AttrEntry list \<times> string set" where
  "getAttrListLevel m [] (res, propSet) = (res, propSet)"
| "getAttrListLevel m (attrDef # ds) (res, propSet) =
     (if a_prop attrDef \<in> propSet then getAttrListLevel m ds (res, propSet)
      else getAttrListLevel m ds (res @ [mkAttrEntry attrDef m], insert (a_prop attrDef) propSet))"

fun getAttrListChain :: "'n store \<Rightarrow> proto list \<Rightarrow> 'n AttrEntry list \<times> string set
    \<Rightarrow> 'n AttrEntry list \<times> string set" where
  "getAttrListChain R [] acc = acc"
| "getAttrListChain R (obj # objs) acc =
     getAttrListChain R objs (getAttrListLevel (getMetadata R obj) (md_attrs (getMetadata R obj)) acc)"

definition getAttrList :: "'n store \<Rightarrow> proto \<Rightarrow> 'n AttrEntry list" where
  "getAttrList R this = fst (getAttrListChain R (protoChain this) ([], {}))"

text \<open>
  The inner loop of \<^verbatim>\<open>getChildList\<close>; the bindings of a level are put in front
  of those of the levels below it (\<^verbatim>\<open>result.unshift(...levelResult)\<close>).
\<close>

fun getChildListLevel :: "ChildDef list \<Rightarrow> ChildDef list \<times> string set
    \<Rightarrow> ChildDef list \<times> string set" where
  "getChildListLevel [] (levelResult, propSet) = (levelResult, propSet)"
| "getChildListLevel (childDef # ds) (levelResult, propSet) =
     (if c_prop childDef \<in> propSet then getChildListLevel ds (levelResult, propSet)
      else getChildListLevel ds (levelResult @ [childDef], insert (c_prop childDef) propSet))"

fun getChildListChain :: "'n store \<Rightarrow> proto list \<Rightarrow> ChildDef list \<times> string set
    \<Rightarrow> ChildDef list \<times> string set" where
  "getChildListChain R [] acc = acc"
| "getChildListChain R (obj # objs) (res, propSet) =
     (case getChildListLevel (md_children (getMetadata R obj)) ([], propSet) of
        (levelResult, propSet') \<Rightarrow> getChildListChain R objs (levelResult @ res, propSet'))"

definition getChildList :: "'n store \<Rightarrow> proto \<Rightarrow> ChildDef list" where
  "getChildList R this = fst (getChildListChain R (protoChain this) ([], {}))"

section \<open>The deserializer (\<^verbatim>\<open>parser.ts\<close>)\<close>

subsection \<open>Built-in string and DOM operations\<close>

text \<open>
  \<^verbatim>\<open>s.replace(pat, '')\<close> with a string pattern: the first occurrence of
  \<open>pat\<close> is removed.
\<close>

fun replaceFirst :: "string \<Rightarrow> string \<Rightarrow> string" where
  "replaceFirst pat [] = []"
| "replaceFirst pat (c # cs) =
     (if take (length pat) (c # cs) = pat then drop (length pat) (c # cs)
      else c # replaceFirst pat cs)"

text \<open>\<^verbatim>\<open>s.split(c)\<close>\<close>

fun split :: "char \<Rightarrow> string \<Rightarrow> string list" where
  "split c [] = [[]]"
| "split c (x # xs) =
     (if x = c then [] # split c xs
      else (case split c xs of w # ws \<Rightarrow> (x # w) # ws | [] \<Rightarrow> [[x]]))"

text \<open>
  \<^verbatim>\<open>s.trim()\<close>; characters are bytes here, so the white space is the ASCII one.
\<close>

definition isWhiteSpace :: "char \<Rightarrow> bool" where
  "isWhiteSpace c = (c \<in> set [CHR '' '', CHR 0x09, CHR 0x0A, CHR 0x0B, CHR 0x0C, CHR 0x0D])"

definition trim :: "string \<Rightarrow> string" where
  "trim s = rev (dropWhile isWhiteSpace (rev (dropWhile isWhiteSpace s)))"

text \<open>\<^verbatim>\<open>node.textContent\<close>: the text of all descendants, in document order.\<close>

fun textContent :: "node \<Rightarrow> string" where
  "textContent (TextNode s) = s"
| "textContent (Element nm pre uri attrs chs) = concat (map textContent chs)"

subsection \<open>Attributes\<close>

text \<open>
  \<^verbatim>\<open>attrNode.nodeName.replace(`${attrNode.prefix}:`, '')\<close>; the template
  literal prints a \<^verbatim>\<open>null\<close> prefix as \<^verbatim>\<open>null\<close>.
\<close>

definition fieldNameOf :: "attrNode \<Rightarrow> string" where
  "fieldNameOf a =
     replaceFirst ((case attrPrefix a of None \<Rightarrow> ''null'' | Some p \<Rightarrow> p) @ '':'')
       (attrNodeName a)"

text \<open>
  Lines 57 to 82: the converter if there is one, else the \<^verbatim>\<open>switch\<close> on the
  declared type. An enum member matches by \<^verbatim>\<open>===\<close>, so only a string member can.
  \<^verbatim>\<open>Object.values\<close> of an undefined type raises a \<^verbatim>\<open>TypeError\<close>.
\<close>

definition convertValue ::
    "(string \<Rightarrow> 'n) \<Rightarrow> 'n AttrMapEntry \<Rightarrow> string \<Rightarrow> error + ('n, 'n inst) jsval" where
  "convertValue parseFloat entry v =
     (case a_converter entry of
        Some conv \<Rightarrow> (case toProp conv v of Inl e \<Rightarrow> Inl (CustomParseError e) | Inr x \<Rightarrow> Inr x)
      | None \<Rightarrow>
          (case a_typ entry of
             Some TBoolean \<Rightarrow> Inr (VBool (v = ''true''))
           | Some TNumber \<Rightarrow> Inr (VNum (parseFloat v))
           | Some TString \<Rightarrow> Inr (VStr v)
           | Some (TEnum members) \<Rightarrow>
               if EnumStr v \<in> set members then Inr (VStr v)
               else Inl (UnknownEnumValue (a_prop entry) v)
           | None \<Rightarrow> Inl TypeError))"

text \<open>Lines 84 to 92: the validators in order, on the value just assigned.\<close>

fun runValidators :: "'n ValidatorDef list \<Rightarrow> ('n, 'n inst) jsval \<Rightarrow> error option" where
  "runValidators [] v = None"
| "runValidators (validator # vs) v =
     (case validator v of
        Some e \<Rightarrow> Some (CustomValidationError e)
      | None \<Rightarrow> runValidators vs v)"

text \<open>
  One turn of the loop over \<^verbatim>\<open>node.attributes\<close>. Its state is the attribute map
  (for the \<open>exist\<close> marks) and the properties of the instance. A key that
  \<^verbatim>\<open>attrMap\<close> only inherits yields a built-in member, which is truthy, has no
  \<^verbatim>\<open>exist\<close> and no \<^verbatim>\<open>defined\<close>: the second \<^verbatim>\<open>mustBeTrue\<close> throws.
\<close>

definition parseAttr :: "(string \<Rightarrow> 'n) \<Rightarrow> attrNode
    \<Rightarrow> (string \<times> 'n AttrMapEntry) list \<times> (string \<Rightarrow> ('n, 'n inst) jsval)
    \<Rightarrow> error + (string \<times> 'n AttrMapEntry) list \<times> (string \<Rightarrow> ('n, 'n inst) jsval)" where
  "parseAttr parseFloat attrNode st =
     (case st of (attrMap, ps) \<Rightarrow>
      if attrPrefix attrNode = Some ''xmlns'' \<or> attrNodeName attrNode = ''xmlns'' then Inr st
      else
        (let fieldName = fieldNameOf attrNode in
         case recGet attrMap fieldName of
           Absent \<Rightarrow> Inr st
         | Inherited \<Rightarrow> Inl (AttrMustBeDefined None)
         | Own entry \<Rightarrow>
             if exist entry then Inl (MultipleAttribute fieldName)
             else if \<not> a_defined entry then Inl (AttrMustBeDefined (Some (a_prop entry)))
             else
               (case convertValue parseFloat entry (attrValue attrNode) of
                  Inl e \<Rightarrow> Inl e
                | Inr v \<Rightarrow>
                    (case runValidators (case a_validator entry of None \<Rightarrow> [] | Some vs \<Rightarrow> vs) v of
                       Some e \<Rightarrow> Inl e
                     | None \<Rightarrow>
                         Inr (recUpdate attrMap fieldName (entry\<lparr>exist := True\<rparr>),
                              ps(a_prop entry := v))))))"

fun parseAttrs :: "(string \<Rightarrow> 'n) \<Rightarrow> attrNode list
    \<Rightarrow> (string \<times> 'n AttrMapEntry) list \<times> (string \<Rightarrow> ('n, 'n inst) jsval)
    \<Rightarrow> error + (string \<times> 'n AttrMapEntry) list \<times> (string \<Rightarrow> ('n, 'n inst) jsval)" where
  "parseAttrs parseFloat [] st = Inr st"
| "parseAttrs parseFloat (attrNode # as) st =
     (case parseAttr parseFloat attrNode st of
        Inl e \<Rightarrow> Inl e
      | Inr st' \<Rightarrow> parseAttrs parseFloat as st')"

subsection \<open>Text, cardinality and required attributes\<close>

text \<open>Lines 120 to 130.\<close>

definition assignText :: "TextValueDef option \<Rightarrow> string \<Rightarrow> (string \<Rightarrow> ('n, 'r) jsval)
    \<Rightarrow> error + (string \<Rightarrow> ('n, 'r) jsval)" where
  "assignText textDef txt ps =
     (case textDef of
        Some td \<Rightarrow>
          if txt \<noteq> [] then Inr (ps(t_prop td := VStr txt))
          else if t_required td then Inl RequiredTextNotExists
          else Inr ps
      | None \<Rightarrow> Inr ps)"

text \<open>Lines 132 to 149, over \<^verbatim>\<open>Object.entries(childMap)\<close>.\<close>

fun assignChildren :: "(string \<times> 'n ChildMapEntry) list \<Rightarrow> (string \<Rightarrow> ('n, 'n inst) jsval)
    \<Rightarrow> error + (string \<Rightarrow> ('n, 'n inst) jsval)" where
  "assignChildren [] ps = Inr ps"
| "assignChildren ((tag, entry) # es) ps =
     (if \<not> length (result entry) \<ge> c_minOccur entry then Inl (TooFewChildNode tag)
      else if (case c_maxOccur entry of Limited k \<Rightarrow> \<not> length (result entry) \<le> k
                | Unlimited \<Rightarrow> False)
        then Inl (TooManyChildNode tag)
      else if length (result entry) = 1 \<and> c_maxOccur entry = Limited 1
        then assignChildren es (ps(c_prop entry := VObj (result entry ! 0)))
      else if length (result entry) > 0
        then assignChildren es (ps(c_prop entry := VArr (map VObj (result entry))))
      else assignChildren es ps)"

text \<open>Lines 151 to 156, over \<^verbatim>\<open>Object.values(attrMap)\<close>.\<close>

fun checkRequired :: "(string \<times> 'n AttrMapEntry) list \<Rightarrow> error option" where
  "checkRequired [] = None"
| "checkRequired ((k, entry) # es) =
     (if exist entry \<or> \<not> a_required entry then checkRequired es
      else Some (RequiredAttributeNotExists (a_name entry)))"

subsection \<open>\<^verbatim>\<open>parseXMLElement\<close>\<close>

text \<open>
  \<^verbatim>\<open>let [namespace, name] = chNode.nodeName.split(':'); if (!name) name = namespace\<close>
\<close>

definition childNameOf :: "string \<Rightarrow> string" where
  "childNameOf nm =
     (case split CHR '':'' nm of
        ns # n # rest \<Rightarrow> if n = [] then ns else n
      | [ns] \<Rightarrow> ns
      | [] \<Rightarrow> [])"

text \<open>
  The function and its loop over \<^verbatim>\<open>node.childNodes\<close>, which calls it on every
  element whose name is a key of the child map. The loop's state is the child map (for the
  \<open>result\<close> lists). An inherited key yields a built-in member with no
  \<^verbatim>\<open>clazz\<close>, and the call on it raises a \<^verbatim>\<open>TypeError\<close>; so does reading
  the attributes of a text node.
\<close>

fun parseXMLElement :: "'n store \<Rightarrow> (string \<Rightarrow> 'n) \<Rightarrow> proto \<Rightarrow> node \<Rightarrow> error + 'n inst"
  and parseChildNodes :: "'n store \<Rightarrow> (string \<Rightarrow> 'n) \<Rightarrow> node list
    \<Rightarrow> (string \<times> 'n ChildMapEntry) list \<Rightarrow> error + (string \<times> 'n ChildMapEntry) list" where
  "parseXMLElement R parseFloat curType (TextNode s) =
     (case md_tag (getMetadata R curType) of
        None \<Rightarrow> Inl TagMustBeDefined
      | Some tg \<Rightarrow> Inl TypeError)"
| "parseXMLElement R parseFloat curType (Element nm pre uri attrs chs) =
     (case md_tag (getMetadata R curType) of
        None \<Rightarrow> Inl TagMustBeDefined
      | Some tg \<Rightarrow>
     (case parseAttrs parseFloat attrs (getAttrMap R curType, \<lambda>p. VUndefined) of
        Inl e \<Rightarrow> Inl e
      | Inr (attrMap, ps1) \<Rightarrow>
     (case getChildMap R curType of
        Inl e \<Rightarrow> Inl e
      | Inr childMap0 \<Rightarrow>
     (case parseChildNodes R parseFloat chs childMap0 of
        Inl e \<Rightarrow> Inl e
      | Inr childMap \<Rightarrow>
     (case assignText (getTextValueDef R curType)
             (trim (textContent (Element nm pre uri attrs chs))) ps1 of
        Inl e \<Rightarrow> Inl e
      | Inr ps2 \<Rightarrow>
     (case assignChildren childMap ps2 of
        Inl e \<Rightarrow> Inl e
      | Inr ps3 \<Rightarrow>
     (case checkRequired attrMap of
        Some e \<Rightarrow> Inl e
      | None \<Rightarrow>
     (case md_readyFunc (getMetadata R curType) of
        None \<Rightarrow> Inr (Inst curType ps3 uri (Some (Element nm pre uri attrs chs)))
      | Some readyFunc \<Rightarrow>
          (case readyFunc (Inst curType ps3 uri (Some (Element nm pre uri attrs chs))) of
             Inl e \<Rightarrow> Inl (CustomValidationError e)
           | Inr instance \<Rightarrow> Inr instance)))))))))"
| "parseChildNodes R parseFloat [] childMap = Inr childMap"
| "parseChildNodes R parseFloat (TextNode s # chs) childMap =
     parseChildNodes R parseFloat chs childMap"
| "parseChildNodes R parseFloat (Element nm pre uri attrs cs # chs) childMap =
     (case recGet childMap (childNameOf nm) of
        Absent \<Rightarrow> parseChildNodes R parseFloat chs childMap
      | Inherited \<Rightarrow> Inl TypeError
      | Own entry \<Rightarrow>
          (case parseXMLElement R parseFloat (c_clazz entry) (Element nm pre uri attrs cs) of
             Inl e \<Rightarrow> Inl e
           | Inr chInstance \<Rightarrow>
               parseChildNodes R parseFloat chs
                 (recUpdate childMap (childNameOf nm)
                    (entry\<lparr>result := result entry @ [chInstance]\<rparr>))))"

text \<open>
  \<^verbatim>\<open>parseXML\<close>; the XML parser of the library is the parameter
  \<open>parseFromString\<close>, which gives the document element.
\<close>

definition parseXML :: "'n store \<Rightarrow> (string \<Rightarrow> 'n) \<Rightarrow> ('x \<Rightarrow> node) \<Rightarrow> proto \<Rightarrow> 'x
    \<Rightarrow> error + 'n inst" where
  "parseXML R parseFloat parseFromString rootType xml =
     parseXMLElement R parseFloat rootType (parseFromString xml)"

subsection \<open>The built-in \<^verbatim>\<open>parseFloat\<close>\<close>

text \<open>
  The function that the number kind calls (line 68), after the language standard: white
  space at the start is skipped, the longest prefix that is a decimal literal is read and
  what follows it is ignored; the result is not-a-number when no prefix is a decimal
  literal. A decimal literal is an optional sign followed by \<^verbatim>\<open>Infinity\<close>, or by
  digits with an optional point, fraction and exponent, or by a point, digits and an
  optional exponent. The value of a literal as a number is the parameter \<open>numberOf\<close>,
  and \<open>nan\<close> is not-a-number. Characters are bytes, so the white space is the
  ASCII one.
\<close>

definition isDecimalDigit :: "char \<Rightarrow> bool" where
  "isDecimalDigit c = (c \<in> set ''0123456789'')"

definition signPart :: "string \<Rightarrow> string" where
  "signPart s = (case s of c # r \<Rightarrow> if c = CHR ''+'' \<or> c = CHR ''-'' then [c] else [] | [] \<Rightarrow> [])"

definition exponentPart :: "string \<Rightarrow> string" where
  "exponentPart s =
     (case s of
        c # r \<Rightarrow>
          if c = CHR ''e'' \<or> c = CHR ''E'' then
            (let sg = signPart r; ds = takeWhile isDecimalDigit (drop (length sg) r)
             in if ds = [] then [] else c # sg @ ds)
          else []
      | [] \<Rightarrow> [])"

definition unsignedLiteral :: "string \<Rightarrow> string option" where
  "unsignedLiteral s =
     (if take 8 s = ''Infinity'' then Some ''Infinity''
      else
        (let ip = takeWhile isDecimalDigit s; r1 = dropWhile isDecimalDigit s in
         case r1 of
           c # r2 \<Rightarrow>
             if c = CHR ''.'' then
               (let fp = takeWhile isDecimalDigit r2; r3 = dropWhile isDecimalDigit r2 in
                if ip = [] \<and> fp = [] then None
                else Some (ip @ ''.'' @ fp @ exponentPart r3))
             else if ip = [] then None else Some (ip @ exponentPart r1)
         | [] \<Rightarrow> if ip = [] then None else Some ip))"

definition strDecimalLiteral :: "string \<Rightarrow> string option" where
  "strDecimalLiteral s =
     (let sg = signPart s in map_option (\<lambda>l. sg @ l) (unsignedLiteral (drop (length sg) s)))"

definition parseFloat :: "(string \<Rightarrow> 'n) \<Rightarrow> 'n \<Rightarrow> string \<Rightarrow> 'n" where
  "parseFloat numberOf nan s =
     (case strDecimalLiteral (dropWhile isWhiteSpace s) of
        None \<Rightarrow> nan
      | Some l \<Rightarrow> numberOf l)"

section \<open>The serializer (\<^verbatim>\<open>base.ts\<close>)\<close>

subsection \<open>Built-in operations\<close>

text \<open>Truthiness of an optional string: present and not empty.\<close>

fun truthy :: "string option \<Rightarrow> bool" where
  "truthy None = False"
| "truthy (Some s) = (s \<noteq> [])"

text \<open>Truthiness of what an object literal gives for a key: a member is an object.\<close>

fun truthyNs :: "nsValue option \<Rightarrow> bool" where
  "truthyNs None = False"
| "truthyNs (Some (URI s)) = (s \<noteq> [])"
| "truthyNs (Some (Member k)) = True"

text \<open>
  \<^verbatim>\<open>value.toString()\<close> on a value that is not nil; \<open>numberToString\<close> is the
  method of numbers. An array joins its elements with commas, a nil element giving the
  empty string; an object gives \<^verbatim>\<open>[object Object]\<close>.
\<close>

fun joinComma :: "string list \<Rightarrow> string" where
  "joinComma [] = []"
| "joinComma [x] = x"
| "joinComma (x # y # ys) = x @ '','' @ joinComma (y # ys)"

fun toStringJS :: "('n \<Rightarrow> string) \<Rightarrow> ('n, 'r) jsval \<Rightarrow> string" where
  "toStringJS numberToString VUndefined = ''undefined''"
| "toStringJS numberToString VNull = ''null''"
| "toStringJS numberToString (VBool b) = (if b then ''true'' else ''false'')"
| "toStringJS numberToString (VNum n) = numberToString n"
| "toStringJS numberToString (VStr s) = s"
| "toStringJS numberToString (VObj r) = ''[object Object]''"
| "toStringJS numberToString (VArr xs) =
     joinComma (map (\<lambda>x. if isNil x then [] else toStringJS numberToString x) xs)"

text \<open>
  The builder operations of the XML library that \<^verbatim>\<open>toXmlObject\<close> calls, on the
  node values of this theory. A qualified name has a prefix when it has exactly one
  colon. Setting an attribute replaces the one of the same name (of the same namespace
  and local name for the namespace-aware form), else adds it at the end. Appending a child
  adds the node at the end of the children; that the library first takes a node that has
  a parent out of that parent has no counterpart on node values (see the data model), and
  matters for the stored source node of an instance with raw output only.
\<close>

definition prefixOf :: "string \<Rightarrow> string option" where
  "prefixOf qname = (case split CHR '':'' qname of [p, l] \<Rightarrow> Some p | _ \<Rightarrow> None)"

definition localNameOf :: "string \<Rightarrow> string" where
  "localNameOf qname = (case split CHR '':'' qname of [p, l] \<Rightarrow> l | _ \<Rightarrow> qname)"

definition createElementNS :: "nsValue option \<Rightarrow> string \<Rightarrow> node" where
  "createElementNS uri qname = Element qname (prefixOf qname) uri [] []"

definition createElement :: "string \<Rightarrow> node" where
  "createElement tagName = Element tagName None None [] []"

definition createTextNode :: "string \<Rightarrow> node" where
  "createTextNode s = TextNode s"

fun setNamedItem :: "(attrNode \<Rightarrow> bool) \<Rightarrow> attrNode \<Rightarrow> attrNode list \<Rightarrow> attrNode list" where
  "setNamedItem same new [] = [new]"
| "setNamedItem same new (a # as) =
     (if same a then new # as else a # setNamedItem same new as)"

fun setAttribute :: "string \<Rightarrow> string \<Rightarrow> node \<Rightarrow> node" where
  "setAttribute n v (Element nm pre uri attrs chs) =
     Element nm pre uri (setNamedItem (\<lambda>a. attrNodeName a = n) (AttrNode n None None v) attrs) chs"
| "setAttribute n v (TextNode s) = TextNode s"

fun setAttributeNS :: "string option \<Rightarrow> string \<Rightarrow> string \<Rightarrow> node \<Rightarrow> node" where
  "setAttributeNS auri qname v (Element nm pre uri attrs chs) =
     Element nm pre uri
       (setNamedItem
          (\<lambda>a. attrNamespaceURI a = auri \<and> localNameOf (attrNodeName a) = localNameOf qname)
          (AttrNode qname (prefixOf qname) auri v) attrs) chs"
| "setAttributeNS auri qname v (TextNode s) = TextNode s"

fun appendChild :: "node \<Rightarrow> node \<Rightarrow> node" where
  "appendChild (Element nm pre uri attrs chs) ch = Element nm pre uri attrs (chs @ [ch])"
| "appendChild (TextNode s) ch = TextNode s"

subsection \<open>Steps of \<^verbatim>\<open>toXmlObject\<close>\<close>

text \<open>
  \<^verbatim>\<open>requireMetadataAndClsName\<close> of \<^verbatim>\<open>metadata.ts\<close>, without the class
  name.
\<close>

definition requireMetadataAndClsName :: "'n store \<Rightarrow> proto \<Rightarrow> error + 'n XMLMetadata" where
  "requireMetadataAndClsName R prototype =
     (if md_defined (getMetadata R prototype) then Inr (getMetadata R prototype)
      else Inl MissingTagDecorator)"

text \<open>\<^verbatim>\<open>x instanceof XMLElement\<close>, for \<open>x\<close> of prototype \<open>p\<close>.\<close>

definition instanceofXMLElement :: "proto \<Rightarrow> bool" where
  "instanceofXMLElement p = (XMLElement \<in> set (protoChain p))"

text \<open>
  The override map \<^verbatim>\<open>nsDef\<close> is an object literal: \<^verbatim>\<open>{}\<close> when the
  argument is absent (line 57) and \<^verbatim>\<open>Object.assign({}, nsDef)\<close> in the calls on
  the children (line 161); the object of the outermost caller is taken to be an ordinary
  object too. It is modelled by its own properties, a map from prefix to URI. Reading a
  key that is no own property gives the member of \<^verbatim>\<open>Object.prototype\<close> of that
  name, if there is one. Writing the key \<^verbatim>\<open>__proto__\<close> runs the setter of
  \<^verbatim>\<open>Object.prototype\<close>, which ignores a string, unless the object has an own
  property of that name; so \<^verbatim>\<open>Object.assign\<close>, which writes key by key, does not
  copy that key.
\<close>

definition nsDefGet :: "(string \<rightharpoonup> string) \<Rightarrow> string \<Rightarrow> nsValue option" where
  "nsDefGet nsDef k =
     (case nsDef k of
        Some s \<Rightarrow> Some (URI s)
      | None \<Rightarrow> if k \<in> set objectPrototypeKeys then Some (Member k) else None)"

definition nsDefSet :: "(string \<rightharpoonup> string) \<Rightarrow> string \<Rightarrow> string \<Rightarrow> (string \<rightharpoonup> string)" where
  "nsDefSet nsDef k s = (if k = ''__proto__'' \<and> nsDef k = None then nsDef else nsDef(k \<mapsto> s))"

definition objectAssign :: "(string \<rightharpoonup> string) \<Rightarrow> (string \<rightharpoonup> string)" where
  "objectAssign nsDef = nsDef(''__proto__'' := None)"

text \<open>
  Lines 56 to 64: the prefix, the namespace URI of the element and the override map
  after them. \<open>nsDef\<close> is the argument, absent or the own properties of the object
  given; \<open>thisNsURI\<close> is the field of the instance.
\<close>

definition effectiveNamespace :: "'n XMLMetadata \<Rightarrow> string option \<Rightarrow> (string \<rightharpoonup> string) option
    \<Rightarrow> string \<times> nsValue option \<times> (string \<rightharpoonup> string)" where
  "effectiveNamespace md thisNsURI nsDef =
     (let nsDef0 = (case nsDef of None \<Rightarrow> Map.empty | Some m \<Rightarrow> m);
          ns = (if truthy (md_ns md) then the (md_ns md) else ''*'');
          nsURI0 = (if truthyNs (nsDefGet nsDef0 ns) then nsDefGet nsDef0 ns
                    else map_option URI (md_nsURI md))
      in if truthy thisNsURI
         then (ns, map_option URI thisNsURI, nsDefSet nsDef0 ns (the thisNsURI))
         else (ns, nsURI0, nsDef0))"

text \<open>
  Lines 66 to 71. A tag that is undefined prints as \<^verbatim>\<open>undefined\<close> in the
  template literal.
\<close>

definition tagString :: "'n XMLMetadata \<Rightarrow> string" where
  "tagString md = (case md_tag md of Some t \<Rightarrow> t | None \<Rightarrow> ''undefined'')"

definition createElem :: "'n XMLMetadata \<Rightarrow> string \<Rightarrow> nsValue option \<Rightarrow> node" where
  "createElem md ns uri =
     (if truthyNs uri then createElementNS uri (ns @ '':'' @ tagString md)
      else createElement (tagString md))"

text \<open>
  One turn of the loop of lines 74 to 115; \<open>anyThis\<close> is the properties of the
  instance.
\<close>

definition serializeAttr :: "('n \<Rightarrow> string) \<Rightarrow> (string \<Rightarrow> ('n, addr) jsval) \<Rightarrow> 'n AttrEntry \<Rightarrow> node
    \<Rightarrow> error + node" where
  "serializeAttr numberToString anyThis attrEntry elem =
     (if \<not> a_defined attrEntry then Inl (AttrMustBeDefined (Some (a_prop attrEntry)))
      else if isNil (anyThis (a_prop attrEntry)) then Inr elem
      else
        (let attrName = attrNameOf (e_md attrEntry) attrEntry in
         case (case a_converter attrEntry of
                 Some conv \<Rightarrow>
                   (case toAttr conv (anyThis (a_prop attrEntry)) of
                      Inl e \<Rightarrow> Inl (CustomParseError e)
                    | Inr s \<Rightarrow> Inr (VStr s))
               | None \<Rightarrow> Inr (anyThis (a_prop attrEntry))) of
           Inl e \<Rightarrow> Inl e
         | Inr fieldValue \<Rightarrow>
             (let fieldValueStr = toStringJS numberToString fieldValue in
              if truthy (a_ns attrEntry) then
                (if a_ns attrEntry = Some ''xml''
                 then Inr (setAttribute (''xml:'' @ attrName) fieldValueStr elem)
                 else Inr (setAttributeNS (a_nsURI attrEntry)
                             (the (a_ns attrEntry) @ '':'' @ attrName) fieldValueStr elem))
              else Inr (setAttribute attrName fieldValueStr elem))))"

fun serializeAttrs :: "('n \<Rightarrow> string) \<Rightarrow> (string \<Rightarrow> ('n, addr) jsval) \<Rightarrow> 'n AttrEntry list \<Rightarrow> node
    \<Rightarrow> error + node" where
  "serializeAttrs numberToString anyThis [] elem = Inr elem"
| "serializeAttrs numberToString anyThis (attrEntry # es) elem =
     (case serializeAttr numberToString anyThis attrEntry elem of
        Inl e \<Rightarrow> Inl e
      | Inr elem' \<Rightarrow> serializeAttrs numberToString anyThis es elem')"

text \<open>
  Lines 118 to 157: the list of child objects of one binding. \<open>None\<close> is the
  \<^verbatim>\<open>continue\<close> of an absent value.
\<close>

definition childObjsOf :: "ChildDef \<Rightarrow> ('n, addr) jsval \<Rightarrow> error + ('n, addr) jsval list option" where
  "childObjsOf childDef rawChildObjs =
     (if isNil rawChildObjs then
        (if c_minOccur childDef = 0 then Inr None else Inl (MissingChildObject (c_prop childDef)))
      else
        (case rawChildObjs of
           VArr xs \<Rightarrow>
             if c_maxOccur childDef = Limited 1 then Inl (MaxOccurMustNotBe1 (c_prop childDef))
             else if \<not> (case c_maxOccur childDef of Unlimited \<Rightarrow> True | Limited k \<Rightarrow> k \<ge> length xs)
               then Inl (TooManyChildObjects (c_prop childDef))
             else if \<not> c_minOccur childDef \<le> length xs then Inl (TooFewChildObjects (c_prop childDef))
             else Inr (Some xs)
         | VObj a \<Rightarrow>
             if c_maxOccur childDef \<noteq> Limited 1 then Inl (MaxOccurMustBe1 (c_prop childDef))
             else Inr (Some [VObj a])
         | _ \<Rightarrow> Inl (InvalidChildObjectType (c_prop childDef))))"

text \<open>
  Lines 159 to 164: the calls on the child objects, each with a copy of the override
  map. \<open>rec\<close> is \<^verbatim>\<open>toXmlObject\<close>; it returns nothing when it does not return.
  The method exists on the instances of \<^verbatim>\<open>XMLElement\<close> only: on anything else
  (an address outside the store stands for no object) the call raises a
  \<^verbatim>\<open>TypeError\<close>.
\<close>

fun serializeObjs ::
    "('n heap \<Rightarrow> addr \<Rightarrow> (string \<rightharpoonup> string) option \<Rightarrow> ('n heap \<times> (error + node)) option)
     \<Rightarrow> ('n, addr) jsval list \<Rightarrow> (string \<rightharpoonup> string) \<Rightarrow> 'n heap \<Rightarrow> node
     \<Rightarrow> ('n heap \<times> (error + node)) option" where
  "serializeObjs rec [] nsDef h elem = Some (h, Inr elem)"
| "serializeObjs rec (childObj # objs) nsDef h elem =
     (case childObj of
        VObj a \<Rightarrow>
          if a < length h \<and> instanceofXMLElement (cls (h ! a)) then
            (case rec h a (Some (objectAssign nsDef)) of
               None \<Rightarrow> None
             | Some (h', Inl e) \<Rightarrow> Some (h', Inl e)
             | Some (h', Inr childXmlObj) \<Rightarrow>
                 serializeObjs rec objs nsDef h' (appendChild elem childXmlObj))
          else Some (h, Inl TypeError)
      | _ \<Rightarrow> Some (h, Inl TypeError))"

text \<open>The loop of lines 117 to 165 over the child bindings.\<close>

fun serializeChildren ::
    "('n heap \<Rightarrow> addr \<Rightarrow> (string \<rightharpoonup> string) option \<Rightarrow> ('n heap \<times> (error + node)) option)
     \<Rightarrow> ChildDef list \<Rightarrow> addr \<Rightarrow> (string \<rightharpoonup> string) \<Rightarrow> 'n heap \<Rightarrow> node
     \<Rightarrow> ('n heap \<times> (error + node)) option" where
  "serializeChildren rec [] this nsDef h elem = Some (h, Inr elem)"
| "serializeChildren rec (childDef # ds) this nsDef h elem =
     (case childObjsOf childDef (props (h ! this) (c_prop childDef)) of
        Inl e \<Rightarrow> Some (h, Inl e)
      | Inr None \<Rightarrow> serializeChildren rec ds this nsDef h elem
      | Inr (Some childObjs) \<Rightarrow>
          (case serializeObjs rec childObjs nsDef h elem of
             None \<Rightarrow> None
           | Some (h', Inl e) \<Rightarrow> Some (h', Inl e)
           | Some (h', Inr elem') \<Rightarrow> serializeChildren rec ds this nsDef h' elem'))"

text \<open>Lines 167 to 181.\<close>

definition serializeText :: "TextValueDef option \<Rightarrow> (string \<Rightarrow> ('n, addr) jsval) \<Rightarrow> node
    \<Rightarrow> error + node" where
  "serializeText textDef anyThis elem =
     (case textDef of
        None \<Rightarrow> Inr elem
      | Some td \<Rightarrow>
          if \<not> isNil (anyThis (t_prop td)) then
            (case anyThis (t_prop td) of
               VStr s \<Rightarrow> Inr (appendChild elem (createTextNode s))
             | _ \<Rightarrow> Inl TextPropertyMustBeString)
          else if t_required td then Inl MissingTextProperty
          else Inr elem)"

subsection \<open>\<^verbatim>\<open>toXmlObject\<close>\<close>

text \<open>
  The body of the \<^verbatim>\<open>try\<close> block, lines 50 to 183, after the flag is set. It reads
  the fields of \<open>this\<close> in the store and changes the store only through \<open>rec\<close>.
\<close>

definition tryBlock ::
    "('n heap \<Rightarrow> addr \<Rightarrow> (string \<rightharpoonup> string) option \<Rightarrow> ('n heap \<times> (error + node)) option)
     \<Rightarrow> 'n store \<Rightarrow> ('n \<Rightarrow> string) \<Rightarrow> 'n XMLMetadata \<Rightarrow> 'n heap \<Rightarrow> addr
     \<Rightarrow> (string \<rightharpoonup> string) option \<Rightarrow> ('n heap \<times> (error + node)) option" where
  "tryBlock rec R numberToString md h this nsDef =
     (if md_rawOutput md \<and> rawDom (h ! this) \<noteq> None then Some (h, Inr (the (rawDom (h ! this))))
      else
        (case effectiveNamespace md (nsURI (h ! this)) nsDef of
           (ns, uri, nsDef') \<Rightarrow>
        (case serializeAttrs numberToString (props (h ! this)) (getAttrList R (cls (h ! this)))
                (createElem md ns uri) of
           Inl e \<Rightarrow> Some (h, Inl e)
         | Inr elem1 \<Rightarrow>
        (case serializeChildren rec (getChildList R (cls (h ! this))) this nsDef' h elem1 of
           None \<Rightarrow> None
         | Some (h', Inl e) \<Rightarrow> Some (h', Inl e)
         | Some (h', Inr elem2) \<Rightarrow>
             Some (h', serializeText (getTextValueDef R (cls (h ! this))) (props (h' ! this)) elem2)))))"

text \<open>\<^verbatim>\<open>this.isSerializing = b\<close>\<close>

definition setSerializing :: "'n heap \<Rightarrow> addr \<Rightarrow> bool \<Rightarrow> 'n heap" where
  "setSerializing h this b = h[this := (h ! this)\<lparr>isSerializing := b\<rparr>]"

text \<open>
  \<^verbatim>\<open>toXmlObject\<close> on the object at address \<open>this\<close>. The recursion of the source goes
  through the child objects, which may form a cycle, so the first argument after the
  parameters bounds the depth of the calls: \<open>None\<close> is a call that has not returned
  within the bound. The three checks before the \<^verbatim>\<open>try\<close> leave the store as it is;
  the \<^verbatim>\<open>finally\<close> clears the flag after the block, whether it returned a node or an
  error. The result is the store after the call and the node or the error.
\<close>

primrec toXmlObject :: "'n store \<Rightarrow> ('n \<Rightarrow> string) \<Rightarrow> nat \<Rightarrow> 'n heap \<Rightarrow> addr
    \<Rightarrow> (string \<rightharpoonup> string) option \<Rightarrow> ('n heap \<times> (error + node)) option" where
  "toXmlObject R numberToString 0 = (\<lambda>h this nsDef. None)"
| "toXmlObject R numberToString (Suc depth) = (\<lambda>h this nsDef.
     if \<not> this < length h then Some (h, Inl TypeError)
     else
       (case requireMetadataAndClsName R (cls (h ! this)) of
          Inl e \<Rightarrow> Some (h, Inl e)
        | Inr md \<Rightarrow>
            if \<not> instanceofXMLElement (cls (h ! this)) then Some (h, Inl NotAnXMLElementInstance)
            else if isSerializing (h ! this) then Some (h, Inl CircularReference)
            else
              (case tryBlock (toXmlObject R numberToString depth) R numberToString md
                      (setSerializing h this True) this nsDef of
                 None \<Rightarrow> None
               | Some (h', r) \<Rightarrow> Some (setSerializing h' this False, r))))"

text \<open>
  \<^verbatim>\<open>toXml\<close>; the serializer of the library is the parameter
  \<open>serializeToString\<close>.
\<close>

definition toXml :: "'n store \<Rightarrow> ('n \<Rightarrow> string) \<Rightarrow> (node \<Rightarrow> 'x) \<Rightarrow> nat \<Rightarrow> 'n heap \<Rightarrow> addr
    \<Rightarrow> (string \<rightharpoonup> string) option \<Rightarrow> ('n heap \<times> (error + 'x)) option" where
  "toXml R numberToString serializeToString depth h this nsDef =
     (case toXmlObject R numberToString depth h this nsDef of
        None \<Rightarrow> None
      | Some (h', Inl e) \<Rightarrow> Some (h', Inl e)
      | Some (h', Inr elem) \<Rightarrow> Some (h', Inr (serializeToString elem)))"

section \<open>Schema resolution: which binding wins\<close>

text \<open>
  The override rule in the words of the specification: walking from the type to its
  ancestors, the first binding found for a key is recorded and the bindings of deeper
  ancestors for the same key are ignored. The key is the property for the serializer's
  lists, the attribute name for the deserializer's attribute map and the tag of the child's
  class for its child map.
\<close>

fun mostSpecificAttr :: "'n store \<Rightarrow> proto list \<Rightarrow> string \<Rightarrow> 'n AttrEntry option" where
  "mostSpecificAttr R [] p = None"
| "mostSpecificAttr R (obj # objs) p =
     (case find (\<lambda>d. a_prop d = p) (md_attrs (getMetadata R obj)) of
        Some d \<Rightarrow> Some (mkAttrEntry d (getMetadata R obj))
      | None \<Rightarrow> mostSpecificAttr R objs p)"

fun mostSpecificChild :: "'n store \<Rightarrow> proto list \<Rightarrow> string \<Rightarrow> ChildDef option" where
  "mostSpecificChild R [] p = None"
| "mostSpecificChild R (obj # objs) p =
     (case find (\<lambda>d. c_prop d = p) (md_children (getMetadata R obj)) of
        Some d \<Rightarrow> Some d
      | None \<Rightarrow> mostSpecificChild R objs p)"

fun mostSpecificAttrNamed :: "'n store \<Rightarrow> proto list \<Rightarrow> string \<Rightarrow> 'n AttrMapEntry option" where
  "mostSpecificAttrNamed R [] n = None"
| "mostSpecificAttrNamed R (obj # objs) n =
     (case find (\<lambda>d. attrNameOf (getMetadata R obj) d = n) (md_attrs (getMetadata R obj)) of
        Some d \<Rightarrow> Some (mkAttrMapEntry d n)
      | None \<Rightarrow> mostSpecificAttrNamed R objs n)"

fun mostSpecificChildTagged :: "'n store \<Rightarrow> proto list \<Rightarrow> string \<Rightarrow> 'n ChildMapEntry option" where
  "mostSpecificChildTagged R [] t = None"
| "mostSpecificChildTagged R (obj # objs) t =
     (case find (\<lambda>d. md_tag (getMetadata R (c_clazz d)) = Some t) (md_children (getMetadata R obj)) of
        Some d \<Rightarrow> Some (mkChildMapEntry d)
      | None \<Rightarrow> mostSpecificChildTagged R objs t)"

lemma a_prop_attrEntry [simp]: "a_prop (mkAttrEntry d m) = a_prop d"
  by (simp add: mkAttrEntry_def AttrDef.defs)

lemma find_None_prop: "find P ds = None \<Longrightarrow> d \<in> set ds \<Longrightarrow> \<not> P d"
  by (simp add: find_None_iff)

lemma getAttrListLevel_filter:
  "filter (\<lambda>e. a_prop e = p) (fst (getAttrListLevel m ds (res, P))) =
     filter (\<lambda>e. a_prop e = p) res @
       (if p \<in> P then [] else case find (\<lambda>d. a_prop d = p) ds of None \<Rightarrow> []
          | Some d \<Rightarrow> [mkAttrEntry d m])"
  by (induction ds arbitrary: res P) auto

lemma getAttrListLevel_snd:
  "snd (getAttrListLevel m ds (res, P)) = P \<union> a_prop ` set ds"
  by (induction ds arbitrary: res P) auto

lemma getAttrListChain_filter:
  "filter (\<lambda>e. a_prop e = p) (fst (getAttrListChain R objs (res, P))) =
     filter (\<lambda>e. a_prop e = p) res @
       (if p \<in> P then [] else case mostSpecificAttr R objs p of None \<Rightarrow> [] | Some e \<Rightarrow> [e])"
proof (induction objs arbitrary: res P)
  case Nil
  then show ?case by simp
next
  case (Cons obj objs)
  obtain res' P' where lv: "getAttrListLevel (getMetadata R obj) (md_attrs (getMetadata R obj)) (res, P) = (res', P')"
    by (cases "getAttrListLevel (getMetadata R obj) (md_attrs (getMetadata R obj)) (res, P)")
  have r: "filter (\<lambda>e. a_prop e = p) res' = filter (\<lambda>e. a_prop e = p) res @
       (if p \<in> P then [] else case find (\<lambda>d. a_prop d = p) (md_attrs (getMetadata R obj)) of None \<Rightarrow> []
          | Some d \<Rightarrow> [mkAttrEntry d (getMetadata R obj)])"
    using getAttrListLevel_filter [of p "getMetadata R obj" "md_attrs (getMetadata R obj)" res P] lv by simp
  have s: "P' = P \<union> a_prop ` set (md_attrs (getMetadata R obj))"
    using getAttrListLevel_snd [of "getMetadata R obj" "md_attrs (getMetadata R obj)" res P] lv by simp
  show ?case
  proof (cases "find (\<lambda>d. a_prop d = p) (md_attrs (getMetadata R obj))")
    case None
    then have "p \<notin> a_prop ` set (md_attrs (getMetadata R obj))"
      by (auto simp: find_None_iff)
    then show ?thesis using Cons.IH [of res' P'] lv r s None by auto
  next
    case (Some d)
    then have "p \<in> a_prop ` set (md_attrs (getMetadata R obj))"
      by (auto simp: find_Some_iff)
    then show ?thesis using Cons.IH [of res' P'] lv r s Some by auto
  qed
qed


lemma getChildListLevel_filter:
  "filter (\<lambda>c. c_prop c = p) (fst (getChildListLevel ds (res, P))) =
     filter (\<lambda>c. c_prop c = p) res @
       (if p \<in> P then [] else case find (\<lambda>d. c_prop d = p) ds of None \<Rightarrow> [] | Some d \<Rightarrow> [d])"
  by (induction ds arbitrary: res P) auto

lemma getChildListLevel_snd:
  "snd (getChildListLevel ds (res, P)) = P \<union> c_prop ` set ds"
  by (induction ds arbitrary: res P) auto

lemma getChildListChain_filter:
  "filter (\<lambda>c. c_prop c = p) (fst (getChildListChain R objs (res, P))) =
     (if p \<in> P then [] else case mostSpecificChild R objs p of None \<Rightarrow> [] | Some d \<Rightarrow> [d])
       @ filter (\<lambda>c. c_prop c = p) res"
proof (induction objs arbitrary: res P)
  case Nil
  then show ?case by simp
next
  case (Cons obj objs)
  let ?ds = "md_children (getMetadata R obj)"
  obtain lr P' where lv: "getChildListLevel ?ds ([], P) = (lr, P')"
    by (cases "getChildListLevel ?ds ([], P)")
  have r: "filter (\<lambda>c. c_prop c = p) lr =
       (if p \<in> P then [] else case find (\<lambda>d. c_prop d = p) ?ds of None \<Rightarrow> [] | Some d \<Rightarrow> [d])"
    using getChildListLevel_filter [of p ?ds "[]" P] lv by simp
  have s: "P' = P \<union> c_prop ` set ?ds"
    using getChildListLevel_snd [of ?ds "[]" P] lv by simp
  show ?case
  proof (cases "find (\<lambda>d. c_prop d = p) ?ds")
    case None
    then have "p \<notin> c_prop ` set ?ds"
      by (auto simp: find_None_iff)
    then show ?thesis using Cons.IH [of "lr @ res" P'] lv r s None by auto
  next
    case (Some d)
    then have "p \<in> c_prop ` set ?ds"
      by (auto simp: find_Some_iff)
    then show ?thesis using Cons.IH [of "lr @ res" P'] lv r s Some by auto
  qed
qed

lemma recGet_Nil: "recGet [] k = (if k \<in> set objectPrototypeKeys then Inherited else Absent)"
  by (simp add: recGet_def)

lemma recGet_append:
  "recGet m k = Absent \<Longrightarrow>
   recGet (m @ [(k, v)]) n = (case recGet m n of Absent \<Rightarrow> if n = k then Own v else Absent | x \<Rightarrow> x)"
  by (auto simp: recGet_def split: option.splits if_splits)

lemma getAttrMapLevel_recGet:
  "recGet (getAttrMapLevel md ds m) n =
     (case recGet m n of
        Absent \<Rightarrow> (case find (\<lambda>d. attrNameOf md d = n) ds of None \<Rightarrow> Absent
                    | Some d \<Rightarrow> Own (mkAttrMapEntry d n))
      | x \<Rightarrow> x)"
proof (induction ds arbitrary: m)
  case Nil
  then show ?case by (simp split: lookup.splits)
next
  case (Cons d ds)
  show ?case
  proof (cases "recGet m (attrNameOf md d)")
    case Absent
    then show ?thesis
      using Cons.IH [of "m @ [(attrNameOf md d, mkAttrMapEntry d (attrNameOf md d))]"]
      by (auto simp: recGet_append Let_def split: lookup.splits)
  next
    case (Own x)
    then show ?thesis using Cons.IH [of m] by (auto simp: Let_def split: lookup.splits)
  next
    case Inherited
    then show ?thesis using Cons.IH [of m] by (auto simp: Let_def split: lookup.splits)
  qed
qed

lemma getAttrMapChain_recGet:
  "recGet (getAttrMapChain R objs m) n =
     (case recGet m n of
        Absent \<Rightarrow> (case mostSpecificAttrNamed R objs n of None \<Rightarrow> Absent | Some e \<Rightarrow> Own e)
      | x \<Rightarrow> x)"
proof (induction objs arbitrary: m)
  case Nil
  then show ?case by (simp split: lookup.splits)
next
  case (Cons obj objs)
  show ?case
    using Cons.IH [of "getAttrMapLevel (getMetadata R obj) (md_attrs (getMetadata R obj)) m"]
    by (simp add: getAttrMapLevel_recGet split: lookup.splits option.splits)
qed

lemma getChildMapLevel_recGet:
  "getChildMapLevel R ds m = Inr m' \<Longrightarrow>
   recGet m' t =
     (case recGet m t of
        Absent \<Rightarrow> (case find (\<lambda>d. md_tag (getMetadata R (c_clazz d)) = Some t) ds of
                      None \<Rightarrow> Absent | Some d \<Rightarrow> Own (mkChildMapEntry d))
      | x \<Rightarrow> x)"
proof (induction ds arbitrary: m)
  case Nil
  then show ?case by (auto split: lookup.splits)
next
  case (Cons d ds)
  from Cons.prems obtain tag where tg: "md_tag (getMetadata R (c_clazz d)) = Some tag"
    by (auto split: option.splits)
  show ?case
  proof (cases "recGet m tag")
    case Absent
    then show ?thesis
      using Cons.IH [of "m @ [(tag, mkChildMapEntry d)]"] Cons.prems tg
      by (auto simp: recGet_append split: lookup.splits)
  next
    case (Own x)
    then show ?thesis using Cons.IH [of m] Cons.prems tg by (auto split: lookup.splits)
  next
    case Inherited
    then show ?thesis using Cons.IH [of m] Cons.prems tg by (auto split: lookup.splits)
  qed
qed

lemma getChildMapChain_recGet:
  "getChildMapChain R objs m = Inr m' \<Longrightarrow>
   recGet m' t =
     (case recGet m t of
        Absent \<Rightarrow> (case mostSpecificChildTagged R objs t of None \<Rightarrow> Absent | Some e \<Rightarrow> Own e)
      | x \<Rightarrow> x)"
proof (induction objs arbitrary: m)
  case Nil
  then show ?case by (auto split: lookup.splits)
next
  case (Cons obj objs)
  from Cons.prems obtain m1 where
    m1: "getChildMapLevel R (md_children (getMetadata R obj)) m = Inr m1"
    and rest: "getChildMapChain R objs m1 = Inr m'"
    by (auto split: sum.splits)
  show ?case
    using Cons.IH [OF rest] getChildMapLevel_recGet [OF m1, of t]
    by (simp split: lookup.splits option.splits)
qed

subsection \<open>An example: a subclass that rebinds a property\<close>

text \<open>
  \<^verbatim>\<open>Son extends Father\<close>. Both bind the property \<open>p\<close> to an attribute, the son
  under the name \<open>x\<close>, the father under the name \<open>y\<close>; both bind the property \<open>q\<close>
  to a child, the son to the class \<open>A\<close>, the father to the class \<open>B\<close>.
\<close>

definition strAttr :: "string \<Rightarrow> string option \<Rightarrow> nat AttrDef" where
  "strAttr p n = \<lparr>a_prop = p, a_defined = True, a_name = n, a_typ = Some TString,
     a_required = False, a_converter = None, a_validator = None, a_ns = None, a_nsURI = None\<rparr>"

definition tagged :: "string \<Rightarrow> nat XMLMetadata" where
  "tagged t = emptyMetadata\<lparr>md_defined := True, md_name := Some t, md_tag := Some t\<rparr>"

definition optChild :: "string \<Rightarrow> proto \<Rightarrow> ChildDef" where
  "optChild p c = \<lparr>c_prop = p, c_clazz = c, c_minOccur = 0, c_maxOccur = Limited 1\<rparr>"

definition Father :: proto where
  "Father = [''Father'', ''XMLElement'']"

definition Son :: proto where
  "Son = ''Son'' # Father"

definition ClsA :: proto where
  "ClsA = [''A'', ''XMLElement'']"

definition ClsB :: proto where
  "ClsB = [''B'', ''XMLElement'']"

definition rebindStore :: "nat store" where
  "rebindStore = [
     Son \<mapsto> (tagged ''Son'')\<lparr>md_attrs := [strAttr ''p'' (Some ''x'')],
        md_children := [optChild ''q'' ClsA]\<rparr>,
     Father \<mapsto> emptyMetadata\<lparr>md_attrs := [strAttr ''p'' (Some ''y'')],
        md_children := [optChild ''q'' ClsB]\<rparr>,
     ClsA \<mapsto> tagged ''A'', ClsB \<mapsto> tagged ''B'']"

lemmas schema_defs = getMetadata_def emptyMetadata_def getAttrMap_def getChildMap_def
  getAttrList_def getChildList_def getTextValueDef_def mkAttrMapEntry_def mkChildMapEntry_def
  mkAttrEntry_def attrNameOf_def recGet_def objectPrototypeKeys_def AttrDef.defs
  AttrMapEntry.defs ChildDef.defs ChildMapEntry.defs AttrEntry.defs Let_def

lemmas rebind_defs = strAttr_def tagged_def optChild_def Father_def Son_def ClsA_def ClsB_def
  rebindStore_def

subsection \<open>The override rule\<close>

text \<open>
  Claim C2, as the code has it. For every type \<open>T\<close>, properties \<open>p\<close> and \<open>q\<close>, attribute
  name \<open>n\<close> and tag \<open>t\<close>: the serializer's attribute list holds exactly one binding of
  \<open>p\<close> and its child list exactly one of \<open>q\<close>, the one of the most specific level that
  binds the property (none if no level does);
  the deserializer's attribute map holds under \<open>n\<close>, and its child map under \<open>t\<close>, the
  binding of the most specific level that binds that name or that tag. The statement about
  the maps is for the names and tags that are not names of members of
  \<^verbatim>\<open>Object.prototype\<close>.
\<close>

theorem override_most_specific:
  "filter (\<lambda>e. a_prop e = p) (getAttrList R T) =
     (case mostSpecificAttr R (protoChain T) p of None \<Rightarrow> [] | Some e \<Rightarrow> [e])
   \<and> filter (\<lambda>c. c_prop c = q) (getChildList R T) =
     (case mostSpecificChild R (protoChain T) q of None \<Rightarrow> [] | Some d \<Rightarrow> [d])
   \<and> (n \<notin> set objectPrototypeKeys \<longrightarrow> recGet (getAttrMap R T) n =
     (case mostSpecificAttrNamed R (protoChain T) n of None \<Rightarrow> Absent | Some e \<Rightarrow> Own e))
   \<and> (t \<notin> set objectPrototypeKeys \<longrightarrow> (\<forall>m. getChildMap R T = Inr m \<longrightarrow> recGet m t =
     (case mostSpecificChildTagged R (protoChain T) t of None \<Rightarrow> Absent | Some e \<Rightarrow> Own e)))"
proof (intro conjI allI impI)
  show "filter (\<lambda>e. a_prop e = p) (getAttrList R T) =
     (case mostSpecificAttr R (protoChain T) p of None \<Rightarrow> [] | Some e \<Rightarrow> [e])"
    using getAttrListChain_filter [of p R "protoChain T" "[]" "{}"]
    by (simp add: getAttrList_def)
  show "filter (\<lambda>c. c_prop c = q) (getChildList R T) =
     (case mostSpecificChild R (protoChain T) q of None \<Rightarrow> [] | Some d \<Rightarrow> [d])"
    using getChildListChain_filter [of q R "protoChain T" "[]" "{}"]
    by (simp add: getChildList_def)
next
  assume "n \<notin> set objectPrototypeKeys"
  then show "recGet (getAttrMap R T) n =
     (case mostSpecificAttrNamed R (protoChain T) n of None \<Rightarrow> Absent | Some e \<Rightarrow> Own e)"
    by (simp add: getAttrMap_def getAttrMapChain_recGet recGet_Nil)
next
  fix m
  assume k: "t \<notin> set objectPrototypeKeys" and "getChildMap R T = Inr m"
  then have "getChildMapChain R (protoChain T) [] = Inr m"
    by (simp add: getChildMap_def)
  from getChildMapChain_recGet [OF this, of t] k
  show "recGet m t =
     (case mostSpecificChildTagged R (protoChain T) t of None \<Rightarrow> Absent | Some e \<Rightarrow> Own e)"
    by (simp add: recGet_Nil)
qed

text \<open>
  The theorem at the example, for the son: the lists hold the son's bindings of \<open>p\<close> and
  \<open>q\<close> only, and the maps hold the son's bindings under \<open>x\<close> and \<open>A\<close>.
\<close>

theorem override_most_specific_witness:
  "filter (\<lambda>e. a_prop e = ''p'') (getAttrList rebindStore Son) =
     [mkAttrEntry (strAttr ''p'' (Some ''x'')) (getMetadata rebindStore Son)]
   \<and> filter (\<lambda>c. c_prop c = ''q'') (getChildList rebindStore Son) = [optChild ''q'' ClsA]
   \<and> ''x'' \<notin> set objectPrototypeKeys
   \<and> recGet (getAttrMap rebindStore Son) ''x'' = Own (mkAttrMapEntry (strAttr ''p'' (Some ''x'')) ''x'')
   \<and> ''A'' \<notin> set objectPrototypeKeys
   \<and> (\<exists>m. getChildMap rebindStore Son = Inr m
        \<and> recGet m ''A'' = Own (mkChildMapEntry (optChild ''q'' ClsA)))"
proof -
  have m: "getChildMap rebindStore Son =
      Inr [(''A'', mkChildMapEntry (optChild ''q'' ClsA)), (''B'', mkChildMapEntry (optChild ''q'' ClsB))]"
    by (simp add: schema_defs rebind_defs)
  have a: "mostSpecificAttr rebindStore (protoChain Son) ''p'' =
      Some (mkAttrEntry (strAttr ''p'' (Some ''x'')) (getMetadata rebindStore Son))"
    by (simp add: schema_defs rebind_defs)
  have c: "mostSpecificChild rebindStore (protoChain Son) ''q'' = Some (optChild ''q'' ClsA)"
    by (simp add: schema_defs rebind_defs)
  have n: "mostSpecificAttrNamed rebindStore (protoChain Son) ''x'' =
      Some (mkAttrMapEntry (strAttr ''p'' (Some ''x'')) ''x'')"
    by (simp add: schema_defs rebind_defs)
  have t: "mostSpecificChildTagged rebindStore (protoChain Son) ''A'' =
      Some (mkChildMapEntry (optChild ''q'' ClsA))"
    by (simp add: schema_defs rebind_defs)
  have k: "''x'' \<notin> set objectPrototypeKeys" "''A'' \<notin> set objectPrototypeKeys"
    by (simp_all add: objectPrototypeKeys_def)
  from override_most_specific [of "''p''" rebindStore Son "''q''" "''x''" "''A''"]
  show ?thesis
    using m a c n t k by simp
qed

text \<open>
  Claim C2 as it is written fails for the deserializer: the son binds \<open>p\<close> and \<open>q\<close>, the
  father binds them too, and the son's attribute map holds the father's binding of \<open>p\<close>
  (under \<open>y\<close>) and its child map the father's binding of \<open>q\<close> (under \<open>B\<close>).
\<close>

theorem override_by_property_counterexample:
  "find (\<lambda>d. a_prop d = ''p'') (md_attrs (getMetadata rebindStore Son)) = Some (strAttr ''p'' (Some ''x''))
   \<and> find (\<lambda>d. a_prop d = ''p'') (md_attrs (getMetadata rebindStore Father)) = Some (strAttr ''p'' (Some ''y''))
   \<and> recGet (getAttrMap rebindStore Son) ''y'' = Own (mkAttrMapEntry (strAttr ''p'' (Some ''y'')) ''y'')
   \<and> find (\<lambda>d. c_prop d = ''q'') (md_children (getMetadata rebindStore Son)) = Some (optChild ''q'' ClsA)
   \<and> find (\<lambda>d. c_prop d = ''q'') (md_children (getMetadata rebindStore Father)) = Some (optChild ''q'' ClsB)
   \<and> getChildMap rebindStore Son =
       Inr [(''A'', mkChildMapEntry (optChild ''q'' ClsA)), (''B'', mkChildMapEntry (optChild ''q'' ClsB))]"
  by (simp add: schema_defs rebind_defs)

section \<open>Serialization: the store, the flag and the depth of the calls\<close>

subsection \<open>Definitions for the statements\<close>

text \<open>A callback that returns the store it was given, and one that returns on a store.\<close>

definition keepsStore ::
    "('n heap \<Rightarrow> addr \<Rightarrow> (string \<rightharpoonup> string) option \<Rightarrow> ('n heap \<times> (error + node)) option) \<Rightarrow> bool" where
  "keepsStore rec = (\<forall>h a ns h' r. rec h a ns = Some (h', r) \<longrightarrow> h' = h)"

definition returnsOn ::
    "('n heap \<Rightarrow> addr \<Rightarrow> (string \<rightharpoonup> string) option \<Rightarrow> ('n heap \<times> (error + node)) option)
     \<Rightarrow> 'n heap \<Rightarrow> bool" where
  "returnsOn rec h = (\<forall>a ns. \<exists>r. rec h a ns = Some (h, r))"

text \<open>The number of objects of the store whose flag is clear.\<close>

definition unflagged :: "'n heap \<Rightarrow> nat" where
  "unflagged h = length (filter (\<lambda>obj. \<not> isSerializing obj) h)"

text \<open>
  An object that is returned as its stored source node (line 52), and the relation
  "the object at \<open>a\<close> holds the object at \<open>b\<close> in a property that is bound to a child and
  is serialized": a single value or a member of a list.
\<close>

definition rawPassthrough :: "'n store \<Rightarrow> 'n heap \<Rightarrow> addr \<Rightarrow> bool" where
  "rawPassthrough R h a =
     (md_rawOutput (getMetadata R (cls (h ! a))) \<and> rawDom (h ! a) \<noteq> None)"

definition holdsChild :: "'n store \<Rightarrow> 'n heap \<Rightarrow> addr \<Rightarrow> addr \<Rightarrow> bool" where
  "holdsChild R h a b =
     (a < length h \<and> \<not> rawPassthrough R h a \<and>
      (\<exists>d \<in> set (getChildList R (cls (h ! a))).
         props (h ! a) (c_prop d) = VObj b
         \<or> (\<exists>xs. props (h ! a) (c_prop d) = VArr xs \<and> VObj b \<in> set xs)))"

fun isElement :: "node \<Rightarrow> bool" where
  "isElement (Element nm pre uri attrs chs) = True"
| "isElement (TextNode s) = False"

text \<open>
  The namespace rule in the words of the specification: the prefix of the schema (\<open>*\<close>
  when it has none); the URI of the element, which is the instance's own override if set,
  else the caller's override for the prefix if set, else the schema's default; and the
  override map for the descendants, which is the caller's with the instance's own
  override written under the prefix.
\<close>

definition nsPrefix :: "'n XMLMetadata \<Rightarrow> string" where
  "nsPrefix md = (case md_ns md of None \<Rightarrow> ''*'' | Some p \<Rightarrow> if p = [] then ''*'' else p)"

definition callerOverrides :: "(string \<rightharpoonup> string) option \<Rightarrow> (string \<rightharpoonup> string)" where
  "callerOverrides nsDef = (case nsDef of None \<Rightarrow> Map.empty | Some m \<Rightarrow> m)"

definition namespaceFor :: "'n XMLMetadata \<Rightarrow> string option \<Rightarrow> (string \<rightharpoonup> string) option
    \<Rightarrow> nsValue option" where
  "namespaceFor md own nsDef =
     (if truthy own then map_option URI own
      else if truthy (callerOverrides nsDef (nsPrefix md))
        then map_option URI (callerOverrides nsDef (nsPrefix md))
      else if truthy (md_nsURI md) then map_option URI (md_nsURI md)
      else None)"

definition overridesFor :: "'n XMLMetadata \<Rightarrow> string option \<Rightarrow> (string \<rightharpoonup> string) option
    \<Rightarrow> (string \<rightharpoonup> string)" where
  "overridesFor md own nsDef =
     (if truthy own then (callerOverrides nsDef)(nsPrefix md := own) else callerOverrides nsDef)"

subsection \<open>Examples: objects that hold each other\<close>

text \<open>
  A class \<open>Loop\<close> with an optional child \<open>next\<close> of its own class; an object that is
  its own \<open>next\<close>, two objects that are each other's, and a chain of two that ends.
\<close>

definition Loop :: proto where
  "Loop = [''Loop'', ''XMLElement'']"

definition loopStore :: "nat store" where
  "loopStore = [Loop \<mapsto> (tagged ''Loop'')\<lparr>md_children := [optChild ''next'' Loop]\<rparr>]"

definition loopObj :: "addr \<Rightarrow> nat obj" where
  "loopObj a = \<lparr>cls = Loop, props = (\<lambda>p. VUndefined)(''next'' := VObj a), nsURI = None, rawDom = None,
     isSerializing = False\<rparr>"

definition selfHeap :: "nat heap" where
  "selfHeap = [loopObj 0]"

definition pairHeap :: "nat heap" where
  "pairHeap = [loopObj 1, loopObj 0]"

definition lastObj :: "nat obj" where
  "lastObj = \<lparr>cls = Loop, props = (\<lambda>p. VUndefined), nsURI = None, rawDom = None,
     isSerializing = False\<rparr>"

definition chainHeap :: "nat heap" where
  "chainHeap = [loopObj 1, lastObj]"

definition noNumbers :: "nat \<Rightarrow> string" where
  "noNumbers n = []"

lemmas serializer_defs = requireMetadataAndClsName_def instanceofXMLElement_def XMLElement_def
  setSerializing_def tryBlock_def effectiveNamespace_def nsDefGet_def nsDefSet_def
  objectAssign_def createElem_def tagString_def
  createElement_def createElementNS_def createTextNode_def childObjsOf_def serializeAttr_def
  serializeText_def prefixOf_def localNameOf_def

lemmas loop_defs = Loop_def loopStore_def loopObj_def selfHeap_def pairHeap_def lastObj_def
  chainHeap_def noNumbers_def
  tagged_def optChild_def

subsection \<open>The store after a call\<close>

lemma keepsStoreD: "keepsStore rec \<Longrightarrow> rec h a ns = Some (h', r) \<Longrightarrow> h' = h"
  unfolding keepsStore_def by blast

lemma serializeObjs_frame:
  assumes "keepsStore rec"
  shows "serializeObjs rec objs nsDef h elem = Some (h', r) \<Longrightarrow> h' = h"
proof (induction objs arbitrary: h elem)
  case Nil
  then show ?case by simp
next
  case (Cons childObj objs)
  show ?case
  proof (cases childObj)
    case (VObj a)
    show ?thesis
    proof (cases "a < length h \<and> instanceofXMLElement (cls (h ! a))")
      case True
      show ?thesis
      proof (cases "rec h a (Some (objectAssign nsDef))")
        case None
        with Cons.prems VObj True show ?thesis by simp
      next
        case (Some res)
        obtain h1 r1 where res: "res = (h1, r1)" by (cases res)
        with Some keepsStoreD [OF assms] have h1: "h1 = h" by blast
        show ?thesis
        proof (cases r1)
          case (Inl e)
          with Cons.prems VObj True Some res h1 show ?thesis by simp
        next
          case (Inr x)
          with Cons.prems VObj True Some res h1
          have "serializeObjs rec objs nsDef h (appendChild elem x) = Some (h', r)" by simp
          then show ?thesis by (rule Cons.IH)
        qed
      qed
    next
      case False
      with Cons.prems VObj show ?thesis by auto
    qed
  qed (use Cons.prems in auto)
qed

lemma serializeChildren_frame:
  assumes "keepsStore rec"
  shows "serializeChildren rec ds this nsDef h elem = Some (h', r) \<Longrightarrow> h' = h"
proof (induction ds arbitrary: h elem)
  case Nil
  then show ?case by simp
next
  case (Cons childDef ds)
  show ?case
  proof (cases "childObjsOf childDef (props (h ! this) (c_prop childDef))")
    case (Inl e)
    with Cons.prems show ?thesis by simp
  next
    case (Inr opt)
    show ?thesis
    proof (cases opt)
      case None
      with Cons.prems Inr have "serializeChildren rec ds this nsDef h elem = Some (h', r)" by simp
      then show ?thesis by (rule Cons.IH)
    next
      case (Some childObjs)
      show ?thesis
      proof (cases "serializeObjs rec childObjs nsDef h elem")
        case None
        with Cons.prems Inr Some show ?thesis by simp
      next
        case (Some res)
        obtain h1 r1 where res: "res = (h1, r1)" by (cases res)
        with Some serializeObjs_frame [OF assms] have h1: "h1 = h" by blast
        show ?thesis
        proof (cases r1)
          case (Inl e)
          with Cons.prems Inr \<open>opt = Some childObjs\<close> Some res h1 show ?thesis by simp
        next
          case (Inr elem')
          with Cons.prems \<open>childObjsOf childDef (props (h ! this) (c_prop childDef)) = Inr opt\<close>
            \<open>opt = Some childObjs\<close> Some res h1
          have "serializeChildren rec ds this nsDef h elem' = Some (h', r)" by simp
          then show ?thesis by (rule Cons.IH)
        qed
      qed
    qed
  qed
qed

lemma tryBlock_frame:
  assumes "keepsStore rec"
  shows "tryBlock rec R nts md h this nsDef = Some (h', r) \<Longrightarrow> h' = h"
  unfolding tryBlock_def
  by (auto split: if_splits prod.splits sum.splits option.splits
      dest: serializeChildren_frame [OF assms])

lemma setSerializing_restore:
  "this < length h \<Longrightarrow> \<not> isSerializing (h ! this) \<Longrightarrow>
   setSerializing (setSerializing h this True) this False = h"
  by (simp add: setSerializing_def list_update_same_conv)

lemma toXmlObject_frame:
  "toXmlObject R nts depth h this nsDef = Some (h', r) \<Longrightarrow> h' = h"
proof (induction depth arbitrary: h this nsDef h' r)
  case 0
  then show ?case by simp
next
  case (Suc depth)
  have rec: "keepsStore (toXmlObject R nts depth)"
    unfolding keepsStore_def using Suc.IH by blast
  show ?case
  proof (cases "this < length h \<and> md_defined (getMetadata R (cls (h ! this)))
      \<and> instanceofXMLElement (cls (h ! this)) \<and> \<not> isSerializing (h ! this)")
    case False
    with Suc.prems show ?thesis
      by (auto simp: requireMetadataAndClsName_def split: if_splits)
  next
    case True
    with Suc.prems obtain h1 where
      tb: "tryBlock (toXmlObject R nts depth) R nts (getMetadata R (cls (h ! this)))
             (setSerializing h this True) this nsDef = Some (h1, r)"
      and h': "h' = setSerializing h1 this False"
      by (auto simp: requireMetadataAndClsName_def split: option.splits)
    from tryBlock_frame [OF rec tb] have "h1 = setSerializing h this True" .
    with h' True show ?thesis by (simp add: setSerializing_restore)
  qed
qed

subsection \<open>Every call returns\<close>

lemma returnsOnD: "returnsOn rec h \<Longrightarrow> \<exists>r. rec h a ns = Some (h, r)"
  unfolding returnsOn_def by blast

lemma serializeObjs_returns:
  assumes "returnsOn rec h"
  shows "\<exists>r. serializeObjs rec objs nsDef h elem = Some (h, r)"
proof (induction objs arbitrary: elem)
  case Nil
  then show ?case by simp
next
  case (Cons childObj objs)
  show ?case
  proof (cases childObj)
    case (VObj a)
    from returnsOnD [OF assms, of a "Some (objectAssign nsDef)"] obtain r1 where
      r1: "rec h a (Some (objectAssign nsDef)) = Some (h, r1)" by blast
    show ?thesis
    proof (cases r1)
      case (Inl e)
      with VObj r1 show ?thesis by simp
    next
      case (Inr x)
      with VObj r1 Cons.IH [of "appendChild elem x"] show ?thesis by auto
    qed
  qed simp_all
qed

lemma serializeChildren_returns:
  assumes "returnsOn rec h"
  shows "\<exists>r. serializeChildren rec ds this nsDef h elem = Some (h, r)"
proof (induction ds arbitrary: elem)
  case Nil
  then show ?case by simp
next
  case (Cons childDef ds)
  show ?case
  proof (cases "childObjsOf childDef (props (h ! this) (c_prop childDef))")
    case (Inl e)
    then show ?thesis by simp
  next
    case (Inr opt)
    show ?thesis
    proof (cases opt)
      case None
      with Inr Cons.IH [of elem] show ?thesis by simp
    next
      case (Some childObjs)
      from serializeObjs_returns [OF assms, of childObjs nsDef elem] obtain r1 where
        r1: "serializeObjs rec childObjs nsDef h elem = Some (h, r1)" by blast
      show ?thesis
      proof (cases r1)
        case (Inl e)
        with Inr Some r1 show ?thesis by simp
      next
        case (Inr elem')
        with \<open>childObjsOf childDef (props (h ! this) (c_prop childDef)) = Inr opt\<close> Some r1
          Cons.IH [of elem'] show ?thesis by simp
      qed
    qed
  qed
qed

lemma tryBlock_returns:
  assumes "returnsOn rec h"
  shows "\<exists>r. tryBlock rec R nts md h this nsDef = Some (h, r)"
proof -
  obtain ns uri nsDef' where en: "effectiveNamespace md (nsURI (h ! this)) nsDef = (ns, uri, nsDef')"
    by (cases "effectiveNamespace md (nsURI (h ! this)) nsDef") auto
  show ?thesis
  proof (cases "serializeAttrs nts (props (h ! this)) (getAttrList R (cls (h ! this)))
                (createElem md ns uri)")
    case (Inl e)
    with en show ?thesis by (simp add: tryBlock_def)
  next
    case (Inr elem1)
    from serializeChildren_returns [OF assms, of "getChildList R (cls (h ! this))" this nsDef' elem1]
    obtain r1 where "serializeChildren rec (getChildList R (cls (h ! this))) this nsDef' h elem1 = Some (h, r1)"
      by blast
    with en Inr show ?thesis by (cases r1) (simp_all add: tryBlock_def)
  qed
qed

lemma unflagged_setSerializing:
  assumes "this < length h" "\<not> isSerializing (h ! this)"
  shows "Suc (unflagged (setSerializing h this True)) = unflagged h"
proof -
  have h: "h = take this h @ (h ! this) # drop (Suc this) h"
    using assms(1) by (simp add: id_take_nth_drop)
  have "setSerializing h this True =
      take this h @ ((h ! this)\<lparr>isSerializing := True\<rparr>) # drop (Suc this) h"
    using assms(1) by (simp add: setSerializing_def upd_conv_take_nth_drop)
  then have "unflagged (setSerializing h this True) =
      length (filter (\<lambda>obj. \<not> isSerializing obj) (take this h))
      + length (filter (\<lambda>obj. \<not> isSerializing obj) (drop (Suc this) h))"
    by (simp add: unflagged_def)
  moreover have "unflagged h =
      length (filter (\<lambda>obj. \<not> isSerializing obj) (take this h)) + 1
      + length (filter (\<lambda>obj. \<not> isSerializing obj) (drop (Suc this) h))"
    unfolding unflagged_def using assms(2) by (subst h) simp
  ultimately show ?thesis by simp
qed

lemma toXmlObject_returns:
  "unflagged h < depth \<Longrightarrow> \<exists>r. toXmlObject R nts depth h this nsDef = Some (h, r)"
proof (induction depth arbitrary: h this nsDef)
  case 0
  then show ?case by simp
next
  case (Suc depth)
  show ?case
  proof (cases "this < length h \<and> md_defined (getMetadata R (cls (h ! this)))
      \<and> instanceofXMLElement (cls (h ! this)) \<and> \<not> isSerializing (h ! this)")
    case False
    then show ?thesis
      by (auto simp: requireMetadataAndClsName_def)
  next
    case True
    let ?h1 = "setSerializing h this True"
    from True unflagged_setSerializing [of this h] Suc.prems
    have "unflagged ?h1 < depth" by simp
    then have "returnsOn (toXmlObject R nts depth) ?h1"
      unfolding returnsOn_def using Suc.IH by blast
    from tryBlock_returns [OF this, of R nts "getMetadata R (cls (h ! this))" this nsDef]
    obtain r where "tryBlock (toXmlObject R nts depth) R nts (getMetadata R (cls (h ! this)))
        ?h1 this nsDef = Some (?h1, r)" by blast
    with True show ?thesis
      by (simp add: requireMetadataAndClsName_def setSerializing_restore)
  qed
qed

subsection \<open>The element that is built\<close>

lemma isElement_setAttribute [simp]: "isElement (setAttribute n v elem) = isElement elem"
  by (cases elem) simp_all

lemma isElement_setAttributeNS [simp]: "isElement (setAttributeNS u n v elem) = isElement elem"
  by (cases elem) simp_all

lemma isElement_appendChild [simp]: "isElement (appendChild elem ch) = isElement elem"
  by (cases elem) simp_all

lemma childNodes_setAttribute [simp]: "childNodes (setAttribute n v elem) = childNodes elem"
  by (cases elem) simp_all

lemma childNodes_setAttributeNS [simp]: "childNodes (setAttributeNS u n v elem) = childNodes elem"
  by (cases elem) simp_all

lemma childNodes_appendChild:
  "isElement elem \<Longrightarrow> childNodes (appendChild elem ch) = childNodes elem @ [ch]"
  by (cases elem) simp_all

lemma isElement_createElem [simp]: "isElement (createElem md ns uri)"
  by (simp add: createElem_def createElementNS_def createElement_def)

lemma serializeAttr_isElement:
  "serializeAttr nts ps e elem = Inr elem' \<Longrightarrow> isElement elem' = isElement elem"
  by (auto simp: serializeAttr_def Let_def split: if_splits option.splits sum.splits)

lemma serializeAttrs_isElement:
  "serializeAttrs nts ps es elem = Inr elem' \<Longrightarrow> isElement elem' = isElement elem"
proof (induction es arbitrary: elem)
  case Nil
  then show ?case by simp
next
  case (Cons e es)
  then show ?case
    by (auto split: sum.splits dest: serializeAttr_isElement)
qed

lemma setAttribute_namespaceURI [simp]: "namespaceURI (setAttribute n v elem) = namespaceURI elem"
  by (cases elem) simp_all

lemma setAttributeNS_namespaceURI [simp]:
  "namespaceURI (setAttributeNS u n v elem) = namespaceURI elem"
  by (cases elem) simp_all

lemma appendChild_namespaceURI [simp]: "namespaceURI (appendChild elem ch) = namespaceURI elem"
  by (cases elem) simp_all

lemma serializeAttr_namespaceURI:
  "serializeAttr nts ps e elem = Inr elem' \<Longrightarrow> namespaceURI elem' = namespaceURI elem"
  by (auto simp: serializeAttr_def Let_def split: if_splits option.splits sum.splits)

lemma serializeAttrs_namespaceURI:
  "serializeAttrs nts ps es elem = Inr elem' \<Longrightarrow> namespaceURI elem' = namespaceURI elem"
proof (induction es arbitrary: elem)
  case Nil
  then show ?case by simp
next
  case (Cons e es)
  then show ?case
    by (auto split: sum.splits dest: serializeAttr_namespaceURI)
qed

lemma serializeObjs_namespaceURI:
  "serializeObjs rec objs nsDef h elem = Some (h', Inr elem') \<Longrightarrow>
   namespaceURI elem' = namespaceURI elem"
proof (induction objs arbitrary: h elem)
  case Nil
  then show ?case by simp
next
  case (Cons childObj objs)
  from Cons.prems obtain a h1 x where
    "serializeObjs rec objs nsDef h1 (appendChild elem x) = Some (h', Inr elem')"
    by (cases childObj) (auto split: if_splits option.splits sum.splits)
  from Cons.IH [OF this] show ?case by simp
qed

lemma serializeChildren_namespaceURI:
  "serializeChildren rec ds this nsDef h elem = Some (h', Inr elem') \<Longrightarrow>
   namespaceURI elem' = namespaceURI elem"
proof (induction ds arbitrary: h elem)
  case Nil
  then show ?case by simp
next
  case (Cons d ds)
  show ?case
  proof (cases "childObjsOf d (props (h ! this) (c_prop d))")
    case (Inl e)
    with Cons.prems show ?thesis by simp
  next
    case (Inr opt)
    show ?thesis
    proof (cases opt)
      case None
      with Cons.prems Inr Cons.IH show ?thesis by simp
    next
      case (Some objs)
      with Cons.prems Inr obtain h1 elem1 where
        o: "serializeObjs rec objs nsDef h elem = Some (h1, Inr elem1)"
        and r: "serializeChildren rec ds this nsDef h1 elem1 = Some (h', Inr elem')"
        by (auto split: option.splits sum.splits)
      from Cons.IH [OF r] serializeObjs_namespaceURI [OF o] show ?thesis by simp
    qed
  qed
qed

lemma serializeText_namespaceURI:
  "serializeText td ps elem = Inr elem' \<Longrightarrow> namespaceURI elem' = namespaceURI elem"
  by (auto simp: serializeText_def split: option.splits if_splits jsval.splits)

lemma createElem_namespaceURI:
  "namespaceURI (createElem md ns uri) = (if truthyNs uri then uri else None)"
  by (simp add: createElem_def createElementNS_def createElement_def)

lemma truthyNs_URI: "truthyNs (map_option URI x) = truthy x"
  by (cases x) simp_all

lemma effectiveNamespace_prefix: "fst (effectiveNamespace md own nsDef) = nsPrefix md"
  by (cases "md_ns md") (simp_all add: effectiveNamespace_def nsPrefix_def Let_def)

lemma effectiveNamespace_eq:
  assumes "effectiveNamespace md own nsDef = (ns, uri, nsDef')"
    "nsPrefix md \<notin> set objectPrototypeKeys"
  shows "ns = nsPrefix md \<and> (if truthyNs uri then uri else None) = namespaceFor md own nsDef
   \<and> nsDef' = overridesFor md own nsDef"
proof -
  from assms(1) effectiveNamespace_prefix [of md own nsDef] have ns: "ns = nsPrefix md"
    by simp
  have np: "nsPrefix md \<noteq> ''__proto__''"
    using assms(2) by (auto simp: objectPrototypeKeys_def)
  have g: "nsDefGet (callerOverrides nsDef) (nsPrefix md)
      = map_option URI (callerOverrides nsDef (nsPrefix md))"
    using assms(2) by (simp add: nsDefGet_def split: option.splits)
  have e: "effectiveNamespace md own nsDef =
      (if truthy own
       then (nsPrefix md, map_option URI own, nsDefSet (callerOverrides nsDef) (nsPrefix md) (the own))
       else (nsPrefix md,
             if truthyNs (nsDefGet (callerOverrides nsDef) (nsPrefix md))
             then nsDefGet (callerOverrides nsDef) (nsPrefix md) else map_option URI (md_nsURI md),
             callerOverrides nsDef))"
    by (cases "md_ns md") (simp_all add: effectiveNamespace_def nsPrefix_def callerOverrides_def Let_def)
  show ?thesis
  proof (cases "truthy own")
    case True
    then obtain s where s: "own = Some s" by (cases own) auto
    from True e assms(1) s np show ?thesis
      by (auto simp: namespaceFor_def overridesFor_def nsDefSet_def ns)
  next
    case False
    with e assms(1) g show ?thesis
      by (auto simp: namespaceFor_def overridesFor_def truthyNs_URI ns)
  qed
qed

lemma tryBlock_namespaceURI:
  assumes "tryBlock rec R nts md h this nsDef = Some (h', Inr elem)"
    "\<not> (md_rawOutput md \<and> rawDom (h ! this) \<noteq> None)"
    "nsPrefix md \<notin> set objectPrototypeKeys"
  shows "namespaceURI elem = namespaceFor md (nsURI (h ! this)) nsDef"
proof -
  obtain ns uri nsDef' where en: "effectiveNamespace md (nsURI (h ! this)) nsDef = (ns, uri, nsDef')"
    by (cases "effectiveNamespace md (nsURI (h ! this)) nsDef") auto
  from assms en obtain elem1 elem2 where
    a: "serializeAttrs nts (props (h ! this)) (getAttrList R (cls (h ! this))) (createElem md ns uri) = Inr elem1"
    and c: "serializeChildren rec (getChildList R (cls (h ! this))) this nsDef' h elem1 = Some (h', Inr elem2)"
    and t: "serializeText (getTextValueDef R (cls (h ! this))) (props (h' ! this)) elem2 = Inr elem"
    by (auto simp: tryBlock_def split: if_splits sum.splits option.splits)
  from serializeText_namespaceURI [OF t] serializeChildren_namespaceURI [OF c]
    serializeAttrs_namespaceURI [OF a]
  have "namespaceURI elem = (if truthyNs uri then uri else None)"
    by (simp add: createElem_namespaceURI)
  with effectiveNamespace_eq [OF en assms(3)] show ?thesis by simp
qed

lemma toXmlObject_namespaceURI:
  assumes "toXmlObject R nts depth h this nsDef = Some (h', Inr elem)"
    "\<not> rawPassthrough R h this"
    "nsPrefix (getMetadata R (cls (h ! this))) \<notin> set objectPrototypeKeys"
  shows "namespaceURI elem = namespaceFor (getMetadata R (cls (h ! this))) (nsURI (h ! this)) nsDef"
proof (cases depth)
  case 0
  with assms show ?thesis by simp
next
  case (Suc d)
  let ?h1 = "setSerializing h this True"
  from assms(1) Suc have a: "this < length h"
    by (auto split: if_splits)
  from assms(1) Suc obtain h1 where
    tb: "tryBlock (toXmlObject R nts d) R nts (getMetadata R (cls (h ! this))) ?h1 this nsDef
           = Some (h1, Inr elem)"
    by (auto simp: requireMetadataAndClsName_def split: if_splits option.splits)
  have eqs: "rawDom (?h1 ! this) = rawDom (h ! this)" "nsURI (?h1 ! this) = nsURI (h ! this)"
    using a by (simp_all add: setSerializing_def)
  from tryBlock_namespaceURI [OF tb _ assms(3)] assms(2) eqs show ?thesis
    by (simp add: rawPassthrough_def)
qed

subsection \<open>The calls on the children\<close>

lemma serializeObjs_appends:
  assumes "keepsStore rec"
  shows "serializeObjs rec objs nsDef h elem = Some (h', Inr e) \<Longrightarrow> isElement elem \<Longrightarrow>
     isElement e \<and> set (childNodes elem) \<subseteq> set (childNodes e) \<and>
     (\<forall>v \<in> set objs. \<exists>b x. v = VObj b \<and> rec h b (Some (objectAssign nsDef)) = Some (h, Inr x)
        \<and> x \<in> set (childNodes e))"
proof (induction objs arbitrary: elem)
  case Nil
  then show ?case by simp
next
  case (Cons childObj objs)
  from Cons.prems(1) obtain a where a: "childObj = VObj a"
    by (cases childObj) auto
  from Cons.prems(1) a obtain h1 r1 where r: "rec h a (Some (objectAssign nsDef)) = Some (h1, r1)"
    by (auto split: if_splits option.splits)
  with keepsStoreD [OF assms] have h1: "h1 = h" by blast
  from Cons.prems(1) a r h1 obtain x where x: "r1 = Inr x"
    and rest: "serializeObjs rec objs nsDef h (appendChild elem x) = Some (h', Inr e)"
    by (cases r1) (auto split: if_splits)
  from Cons.IH [OF rest] Cons.prems(2) have
    ih: "isElement e" "set (childNodes (appendChild elem x)) \<subseteq> set (childNodes e)"
      "\<forall>v \<in> set objs. \<exists>b x. v = VObj b \<and> rec h b (Some (objectAssign nsDef)) = Some (h, Inr x)
        \<and> x \<in> set (childNodes e)"
    by simp_all
  from ih(2) Cons.prems(2) have sub: "set (childNodes elem) \<subseteq> set (childNodes e)" "x \<in> set (childNodes e)"
    by (simp_all add: childNodes_appendChild)
  with ih(1,3) a r h1 x show ?case by auto
qed

lemma serializeChildren_appends:
  assumes "keepsStore rec"
  shows "serializeChildren rec ds this nsDef h elem = Some (h', Inr e) \<Longrightarrow> isElement elem \<Longrightarrow>
     isElement e \<and> set (childNodes elem) \<subseteq> set (childNodes e) \<and>
     (\<forall>d \<in> set ds. \<exists>opt. childObjsOf d (props (h ! this) (c_prop d)) = Inr opt \<and>
       (\<forall>objs v. opt = Some objs \<longrightarrow> v \<in> set objs \<longrightarrow>
          (\<exists>b x. v = VObj b \<and> rec h b (Some (objectAssign nsDef)) = Some (h, Inr x) \<and> x \<in> set (childNodes e))))"
proof (induction ds arbitrary: elem)
  case Nil
  then show ?case by simp
next
  case (Cons childDef ds)
  from Cons.prems(1) obtain opt where opt: "childObjsOf childDef (props (h ! this) (c_prop childDef)) = Inr opt"
    by (cases "childObjsOf childDef (props (h ! this) (c_prop childDef))") auto
  show ?case
  proof (cases opt)
    case None
    with Cons.prems(1) opt have rest: "serializeChildren rec ds this nsDef h elem = Some (h', Inr e)"
      by simp
    from Cons.IH [OF rest Cons.prems(2)] opt None show ?thesis by simp
  next
    case (Some objs)
    from Cons.prems(1) opt Some obtain h1 r1 where
      r: "serializeObjs rec objs nsDef h elem = Some (h1, r1)"
      by (auto split: option.splits)
    with serializeObjs_frame [OF assms] have h1: "h1 = h" by blast
    from Cons.prems(1) opt Some r h1 obtain elem' where e': "r1 = Inr elem'"
      and rest: "serializeChildren rec ds this nsDef h elem' = Some (h', Inr e)"
      by (cases r1) auto
    from serializeObjs_appends [OF assms, of objs nsDef h elem h elem'] r h1 e' Cons.prems(2)
    have o: "isElement elem'" "set (childNodes elem) \<subseteq> set (childNodes elem')"
      "\<forall>v \<in> set objs. \<exists>b x. v = VObj b \<and> rec h b (Some (objectAssign nsDef)) = Some (h, Inr x)
        \<and> x \<in> set (childNodes elem')"
      by simp_all
    from Cons.IH [OF rest o(1)] have
      ih: "isElement e" "set (childNodes elem') \<subseteq> set (childNodes e)"
      "\<forall>d \<in> set ds. \<exists>opt. childObjsOf d (props (h ! this) (c_prop d)) = Inr opt \<and>
       (\<forall>objs v. opt = Some objs \<longrightarrow> v \<in> set objs \<longrightarrow>
          (\<exists>b x. v = VObj b \<and> rec h b (Some (objectAssign nsDef)) = Some (h, Inr x) \<and> x \<in> set (childNodes e)))"
      by simp_all
    have "\<forall>v \<in> set objs. \<exists>b x. v = VObj b \<and> rec h b (Some (objectAssign nsDef)) = Some (h, Inr x)
        \<and> x \<in> set (childNodes e)"
      using o(3) ih(2) by blast
    with opt Some ih o(2) show ?thesis by auto
  qed
qed

lemma serializeText_appends:
  "serializeText td ps elem = Inr e \<Longrightarrow> isElement elem \<Longrightarrow>
   set (childNodes elem) \<subseteq> set (childNodes e)"
  by (auto simp: serializeText_def childNodes_appendChild split: option.splits if_splits jsval.splits)

lemma childObjsOf_VObj: "childObjsOf d (VObj b) = Inr opt \<Longrightarrow> opt = Some [VObj b]"
  by (auto simp: childObjsOf_def split: if_splits)

lemma childObjsOf_VArr: "childObjsOf d (VArr xs) = Inr opt \<Longrightarrow> opt = Some xs"
  by (auto simp: childObjsOf_def split: if_splits)

lemma tryBlock_child_nodes:
  assumes "keepsStore rec" "tryBlock rec R nts md h a nsDef = Some (h', Inr elem)"
    "md = getMetadata R (cls (h ! a))" "holdsChild R h a c"
  shows "\<exists>x. rec h c (Some (objectAssign (snd (snd (effectiveNamespace md (nsURI (h ! a)) nsDef)))))
         = Some (h, Inr x)
     \<and> x \<in> set (childNodes elem)"
proof -
  from assms(4) obtain d where d: "d \<in> set (getChildList R (cls (h ! a)))"
    and nraw: "\<not> rawPassthrough R h a"
    and v: "props (h ! a) (c_prop d) = VObj c
         \<or> (\<exists>xs. props (h ! a) (c_prop d) = VArr xs \<and> VObj c \<in> set xs)"
    by (auto simp: holdsChild_def)
  obtain ns uri nsDef' where en: "effectiveNamespace md (nsURI (h ! a)) nsDef = (ns, uri, nsDef')"
    by (cases "effectiveNamespace md (nsURI (h ! a)) nsDef") auto
  from en have nd: "nsDef' = snd (snd (effectiveNamespace md (nsURI (h ! a)) nsDef))"
    by simp
  from assms(2,3) nraw en obtain elem1 h1 elem2 where
    at: "serializeAttrs nts (props (h ! a)) (getAttrList R (cls (h ! a))) (createElem md ns uri) = Inr elem1"
    and ch: "serializeChildren rec (getChildList R (cls (h ! a))) a nsDef' h elem1 = Some (h1, Inr elem2)"
    and tx: "serializeText (getTextValueDef R (cls (h ! a))) (props (h1 ! a)) elem2 = Inr elem"
    by (auto simp: tryBlock_def rawPassthrough_def split: if_splits sum.splits option.splits)
  from serializeAttrs_isElement [OF at] have e1: "isElement elem1" by simp
  from serializeChildren_appends [OF assms(1) ch e1] d obtain opt where
    e2: "isElement elem2"
    and opt: "childObjsOf d (props (h ! a) (c_prop d)) = Inr opt"
    and all: "\<forall>objs v. opt = Some objs \<longrightarrow> v \<in> set objs \<longrightarrow>
          (\<exists>b x. v = VObj b \<and> rec h b (Some (objectAssign nsDef')) = Some (h, Inr x)
             \<and> x \<in> set (childNodes elem2))"
    by blast
  from serializeText_appends [OF tx e2] have sub: "set (childNodes elem2) \<subseteq> set (childNodes elem)" .
  from v have "\<exists>b x. VObj c = VObj b \<and> rec h b (Some (objectAssign nsDef')) = Some (h, Inr x)
     \<and> x \<in> set (childNodes elem2)"
  proof
    assume o: "props (h ! a) (c_prop d) = VObj c"
    with opt childObjsOf_VObj have "opt = Some [VObj c]" by metis
    with all show ?thesis by simp
  next
    assume "\<exists>xs. props (h ! a) (c_prop d) = VArr xs \<and> VObj c \<in> set xs"
    then obtain xs where xs: "props (h ! a) (c_prop d) = VArr xs" "VObj c \<in> set xs" by blast
    with opt childObjsOf_VArr have "opt = Some xs" by metis
    with all xs(2) show ?thesis by blast
  qed
  with nd sub show ?thesis by auto
qed

lemma holdsChild_setSerializing:
  "holdsChild R (setSerializing h a b) = holdsChild R h"
proof (intro ext)
  fix x y
  have "cls (setSerializing h a b ! x) = cls (h ! x)" "rawDom (setSerializing h a b ! x) = rawDom (h ! x)"
    "props (setSerializing h a b ! x) = props (h ! x)" if "x < length h"
    using that by (cases "x = a"; simp add: setSerializing_def)+
  moreover have "length (setSerializing h a b) = length h"
    by (simp add: setSerializing_def)
  ultimately show "holdsChild R (setSerializing h a b) x y = holdsChild R h x y"
    unfolding holdsChild_def rawPassthrough_def by (cases "x < length h") simp_all
qed

lemma serialized_reach_unflagged:
  "toXmlObject R nts depth h a nsDef = Some (h', Inr node) \<Longrightarrow>
   a < length h \<and> \<not> isSerializing (h ! a) \<and>
   (\<forall>c b. holdsChild R h a c \<longrightarrow> (holdsChild R h)\<^sup>*\<^sup>* c b \<longrightarrow>
      b \<noteq> a \<and> b < length h \<and> \<not> isSerializing (h ! b))"
proof (induction depth arbitrary: h a nsDef h' node)
  case 0
  then show ?case by simp
next
  case (Suc depth)
  let ?h1 = "setSerializing h a True"
  from Suc.prems have a: "a < length h" "\<not> isSerializing (h ! a)"
    by (auto simp: requireMetadataAndClsName_def split: if_splits)
  from Suc.prems obtain h1 where
    tb: "tryBlock (toXmlObject R nts depth) R nts (getMetadata R (cls (h ! a))) ?h1 a nsDef
           = Some (h1, Inr node)"
    by (auto simp: requireMetadataAndClsName_def split: if_splits option.splits)
  have keeps: "keepsStore (toXmlObject R nts depth)"
    unfolding keepsStore_def using toXmlObject_frame by blast
  have cls1: "cls (?h1 ! a) = cls (h ! a)"
    using a by (simp add: setSerializing_def)
  have flag1: "isSerializing (?h1 ! a)"
    using a by (simp add: setSerializing_def)
  have other: "\<And>b. b \<noteq> a \<Longrightarrow> ?h1 ! b = h ! b"
    by (simp add: setSerializing_def)
  have len1: "length ?h1 = length h"
    by (simp add: setSerializing_def)
  have "b \<noteq> a \<and> b < length h \<and> \<not> isSerializing (h ! b)"
    if hc: "holdsChild R h a c" and reach: "(holdsChild R h)\<^sup>*\<^sup>* c b" for c b
  proof -
    from hc have hc1: "holdsChild R ?h1 a c" by (simp add: holdsChild_setSerializing)
    from tryBlock_child_nodes [OF keeps tb _ hc1] cls1 obtain ns x where
      call: "toXmlObject R nts depth ?h1 c ns = Some (?h1, Inr x)" by auto
    from Suc.IH [OF call] have
      c: "c < length ?h1" "\<not> isSerializing (?h1 ! c)"
      and below: "\<And>c' b'. holdsChild R ?h1 c c' \<Longrightarrow> (holdsChild R ?h1)\<^sup>*\<^sup>* c' b' \<Longrightarrow>
        b' \<noteq> c \<and> b' < length ?h1 \<and> \<not> isSerializing (?h1 ! b')"
      by blast+
    have "b < length ?h1 \<and> \<not> isSerializing (?h1 ! b)"
    proof (cases "b = c")
      case True
      with c show ?thesis by simp
    next
      case False
      with reach obtain c' where "holdsChild R h c c'" "(holdsChild R h)\<^sup>*\<^sup>* c' b"
        by (auto elim: converse_rtranclpE)
      with below [of c' b] show ?thesis by (simp add: holdsChild_setSerializing)
    qed
    with flag1 have "b \<noteq> a" by auto
    with \<open>b < length ?h1 \<and> \<not> isSerializing (?h1 ! b)\<close> other len1 show ?thesis by simp
  qed
  with a show ?case by blast
qed

lemma cyclic_never_serialized:
  assumes "(holdsChild R h)\<^sup>+\<^sup>+ a a"
  shows "toXmlObject R nts depth h a nsDef \<noteq> Some (h', Inr node)"
proof
  assume s: "toXmlObject R nts depth h a nsDef = Some (h', Inr node)"
  from assms obtain c where "holdsChild R h a c" "(holdsChild R h)\<^sup>*\<^sup>* c a"
    by (auto dest: tranclpD)
  with serialized_reach_unflagged [OF s] show False by blast
qed


lemma holdsChild_self: "holdsChild loopStore selfHeap 0 0"
  by (simp add: holdsChild_def rawPassthrough_def schema_defs loop_defs)

subsection \<open>The guard against circular references\<close>

text \<open>
  Claim C3, as the code has it. A call of \<^verbatim>\<open>toXmlObject\<close> on an instance whose flag
  is set (an instance that is being serialized) fails with the circular-reference error,
  whatever the depth left. No call recurses without bound: with a depth above the number
  of objects whose flag is clear, it returns. A call on an instance that holds itself as a
  child, directly or through other instances, never returns a node. A call that was
  entered with the flag clear leaves it clear, whether it returns a node or an error.
\<close>

theorem circular_reference_guard:
  "(this < length h \<and> md_defined (getMetadata R (cls (h ! this)))
      \<and> instanceofXMLElement (cls (h ! this)) \<and> isSerializing (h ! this)
     \<longrightarrow> toXmlObject R nts (Suc depth) h this nsDef = Some (h, Inl CircularReference))
   \<and> (unflagged h < depth \<longrightarrow> toXmlObject R nts depth h this nsDef \<noteq> None)
   \<and> ((holdsChild R h)\<^sup>+\<^sup>+ this this \<longrightarrow>
        toXmlObject R nts depth h this nsDef \<noteq> Some (h', Inr elem))
   \<and> (this < length h \<and> \<not> isSerializing (h ! this)
        \<and> toXmlObject R nts depth h this nsDef = Some (h', r)
     \<longrightarrow> \<not> isSerializing (h' ! this))"
proof (intro conjI impI)
  assume "this < length h \<and> md_defined (getMetadata R (cls (h ! this)))
      \<and> instanceofXMLElement (cls (h ! this)) \<and> isSerializing (h ! this)"
  then show "toXmlObject R nts (Suc depth) h this nsDef = Some (h, Inl CircularReference)"
    by (simp add: requireMetadataAndClsName_def)
next
  assume "unflagged h < depth"
  from toXmlObject_returns [OF this, of R nts this nsDef]
  show "toXmlObject R nts depth h this nsDef \<noteq> None" by auto
next
  assume "(holdsChild R h)\<^sup>+\<^sup>+ this this"
  then show "toXmlObject R nts depth h this nsDef \<noteq> Some (h', Inr elem)"
    by (rule cyclic_never_serialized)
next
  assume a: "this < length h \<and> \<not> isSerializing (h ! this)
        \<and> toXmlObject R nts depth h this nsDef = Some (h', r)"
  then have "h' = h" by (auto dest: toXmlObject_frame)
  with a show "\<not> isSerializing (h' ! this)" by simp
qed

text \<open>
  The theorem at the object that is its own child: the inner call, entered with the flag
  set, fails; the outer call returns within depth 2, with the error and the flag clear.
\<close>

theorem circular_reference_guard_witness:
  "isSerializing (setSerializing selfHeap 0 True ! 0)
   \<and> toXmlObject loopStore noNumbers (Suc 0) (setSerializing selfHeap 0 True) 0 (Some Map.empty)
       = Some (setSerializing selfHeap 0 True, Inl CircularReference)
   \<and> unflagged selfHeap < 2
   \<and> toXmlObject loopStore noNumbers 2 selfHeap 0 None \<noteq> None
   \<and> (holdsChild loopStore selfHeap)\<^sup>+\<^sup>+ 0 0
   \<and> toXmlObject loopStore noNumbers 2 selfHeap 0 None \<noteq> Some (selfHeap, Inr (TextNode []))
   \<and> \<not> isSerializing (selfHeap ! 0)
   \<and> toXmlObject loopStore noNumbers 2 selfHeap 0 None = Some (selfHeap, Inl CircularReference)"
proof -
  have h1: "0 < length (setSerializing selfHeap 0 True)
      \<and> md_defined (getMetadata loopStore (cls (setSerializing selfHeap 0 True ! 0)))
      \<and> instanceofXMLElement (cls (setSerializing selfHeap 0 True ! 0))
      \<and> isSerializing (setSerializing selfHeap 0 True ! 0)"
    by (simp add: schema_defs serializer_defs loop_defs)
  have h2: "unflagged selfHeap < 2"
    by (simp add: unflagged_def loop_defs)
  have h3: "(holdsChild loopStore selfHeap)\<^sup>+\<^sup>+ 0 0"
    using holdsChild_self by (rule tranclp.r_into_trancl)
  have h4: "0 < length selfHeap \<and> \<not> isSerializing (selfHeap ! 0)
      \<and> toXmlObject loopStore noNumbers 2 selfHeap 0 None = Some (selfHeap, Inl CircularReference)"
    by (simp add: schema_defs serializer_defs loop_defs eval_nat_numeral)
  from circular_reference_guard [of 0 "setSerializing selfHeap 0 True" loopStore noNumbers 0
      "Some Map.empty" selfHeap "TextNode []" "Inl CircularReference"] h1
  have c1: "toXmlObject loopStore noNumbers (Suc 0) (setSerializing selfHeap 0 True) 0 (Some Map.empty)
       = Some (setSerializing selfHeap 0 True, Inl CircularReference)" by blast
  from circular_reference_guard [of 0 selfHeap loopStore noNumbers 2 None selfHeap "TextNode []"
      "Inl CircularReference"] h2 h3 h4
  have c2: "toXmlObject loopStore noNumbers 2 selfHeap 0 None \<noteq> None
    \<and> toXmlObject loopStore noNumbers 2 selfHeap 0 None \<noteq> Some (selfHeap, Inr (TextNode []))
    \<and> \<not> isSerializing (selfHeap ! 0)"
    by blast
  from h1 h2 h3 h4 c1 c2 show ?thesis by blast
qed

text \<open>
  Claim C3 as it is written says that the flag is cleared on every exit. The call that
  finds the flag set raises before the \<^verbatim>\<open>try\<close>, so its \<^verbatim>\<open>finally\<close> does not
  run: at the exit of the inner call on the object that is its own child, the flag is
  still set.
\<close>

theorem flag_cleared_on_every_exit_counterexample:
  "toXmlObject loopStore noNumbers (Suc 0) (setSerializing selfHeap 0 True) 0 (Some Map.empty)
     = Some (setSerializing selfHeap 0 True, Inl CircularReference)
   \<and> isSerializing (setSerializing selfHeap 0 True ! 0)"
  by (simp add: schema_defs serializer_defs loop_defs)

subsection \<open>What a call changes\<close>

text \<open>
  Claim C10, as the code has it. Whatever \<^verbatim>\<open>toXmlObject\<close> returns, a node or an
  error, the store after the call is the store before it: the properties, the namespace
  URI and the source node of every object are unchanged, and every flag has the value it
  had on entry.
\<close>

theorem toXmlObject_leaves_store:
  "toXmlObject R nts depth h this nsDef = Some (h', r) \<longrightarrow> h' = h"
  by (auto dest: toXmlObject_frame)

text \<open>
  The theorem at a chain of two objects, which serializes, and at two objects that hold
  each other, which do not.
\<close>

theorem toXmlObject_leaves_store_witness:
  "toXmlObject loopStore noNumbers 3 chainHeap 0 None
     = Some (chainHeap, Inr (Element ''Loop'' None None [] [Element ''Loop'' None None [] []]))
   \<and> toXmlObject loopStore noNumbers 3 pairHeap 0 None = Some (pairHeap, Inl CircularReference)"
proof -
  have "\<exists>h'. toXmlObject loopStore noNumbers 3 chainHeap 0 None
     = Some (h', Inr (Element ''Loop'' None None [] [Element ''Loop'' None None [] []]))"
    by (simp add: schema_defs serializer_defs loop_defs eval_nat_numeral)
  moreover have "\<exists>h'. toXmlObject loopStore noNumbers 3 pairHeap 0 None
     = Some (h', Inl CircularReference)"
    by (simp add: schema_defs serializer_defs loop_defs eval_nat_numeral)
  ultimately show ?thesis
    using toXmlObject_leaves_store [of loopStore noNumbers 3 chainHeap 0 None]
      toXmlObject_leaves_store [of loopStore noNumbers 3 pairHeap 0 None]
    by blast
qed

text \<open>
  Claim C10 as it is written says that the flag is false when the call returns, on every
  path. Of two objects that hold each other, the first is entered again while both flags
  are set: the call fails and returns with the flag of the first still set.
\<close>

theorem flag_restored_to_false_counterexample:
  "toXmlObject loopStore noNumbers (Suc 0)
       (setSerializing (setSerializing pairHeap 0 True) 1 True) 0 (Some Map.empty)
     = Some (setSerializing (setSerializing pairHeap 0 True) 1 True, Inl CircularReference)
   \<and> isSerializing (setSerializing (setSerializing pairHeap 0 True) 1 True ! 0)"
  by (simp add: schema_defs serializer_defs loop_defs)

subsection \<open>The namespace of the element\<close>

text \<open>
  For a schema whose prefix is no name of a member of \<^verbatim>\<open>Object.prototype\<close>, the
  code follows the rule. When \<^verbatim>\<open>toXmlObject\<close> builds the element of an instance (it
  returns a node that is not the stored source node), the namespace URI of the element is
  the instance's own URI if set, else the caller's override for the prefix of the schema
  if set, else the default URI of the schema, else none. Every child that the instance
  holds is serialized with a copy of the caller's overrides in which the instance's own
  URI, if set, is written under the prefix; the node of a child without raw output is
  among the children of the element.
\<close>

lemma namespace_rule:
  assumes "nsPrefix (getMetadata R (cls (h ! this))) \<notin> set objectPrototypeKeys"
  shows "(toXmlObject R nts depth h this nsDef = Some (h', Inr elem) \<and> \<not> rawPassthrough R h this
     \<longrightarrow> namespaceURI elem
          = namespaceFor (getMetadata R (cls (h ! this))) (nsURI (h ! this)) nsDef)
   \<and> (toXmlObject R nts (Suc depth) h this nsDef = Some (h', Inr elem) \<and> holdsChild R h this c
     \<longrightarrow> (\<exists>x. toXmlObject R nts depth (setSerializing h this True) c
                 (Some (objectAssign
                    (overridesFor (getMetadata R (cls (h ! this))) (nsURI (h ! this)) nsDef)))
               = Some (setSerializing h this True, Inr x)
              \<and> (\<not> rawPassthrough R h c \<longrightarrow> x \<in> set (childNodes elem))))"
proof (intro conjI impI)
  assume "toXmlObject R nts depth h this nsDef = Some (h', Inr elem) \<and> \<not> rawPassthrough R h this"
  then show "namespaceURI elem
      = namespaceFor (getMetadata R (cls (h ! this))) (nsURI (h ! this)) nsDef"
    using toXmlObject_namespaceURI [of R nts depth h this nsDef h' elem] assms by blast
next
  let ?h1 = "setSerializing h this True"
  let ?md = "getMetadata R (cls (h ! this))"
  assume a: "toXmlObject R nts (Suc depth) h this nsDef = Some (h', Inr elem) \<and> holdsChild R h this c"
  then have t: "this < length h"
    by (auto split: if_splits)
  from a obtain h1 where
    tb: "tryBlock (toXmlObject R nts depth) R nts ?md ?h1 this nsDef = Some (h1, Inr elem)"
    by (auto simp: requireMetadataAndClsName_def split: if_splits option.splits)
  have keeps: "keepsStore (toXmlObject R nts depth)"
    unfolding keepsStore_def using toXmlObject_frame by blast
  have eqs: "cls (?h1 ! this) = cls (h ! this)" "nsURI (?h1 ! this) = nsURI (h ! this)"
    using t by (simp_all add: setSerializing_def)
  from a have hc: "holdsChild R ?h1 this c"
    by (simp add: holdsChild_setSerializing)
  obtain ns uri nsDef' where en: "effectiveNamespace ?md (nsURI (h ! this)) nsDef = (ns, uri, nsDef')"
    by (cases "effectiveNamespace ?md (nsURI (h ! this)) nsDef") auto
  from effectiveNamespace_eq [OF en assms] en
  have nd: "snd (snd (effectiveNamespace ?md (nsURI (h ! this)) nsDef))
      = overridesFor ?md (nsURI (h ! this)) nsDef"
    by simp
  from tryBlock_child_nodes [OF keeps tb _ hc] eqs nd
  show "\<exists>x. toXmlObject R nts depth ?h1 c
                 (Some (objectAssign (overridesFor ?md (nsURI (h ! this)) nsDef)))
               = Some (?h1, Inr x)
              \<and> (\<not> rawPassthrough R h c \<longrightarrow> x \<in> set (childNodes elem))"
    by auto
qed

text \<open>
  An example: a parent and a child with the same prefix \<open>pre\<close>, each with a default
  URI of its own; the instance of the parent carries the URI \<open>own\<close>, if any.
\<close>

definition NsParent :: proto where
  "NsParent = [''Parent'', ''XMLElement'']"

definition NsKid :: proto where
  "NsKid = [''Kid'', ''XMLElement'']"

definition nsStore :: "string \<Rightarrow> nat store" where
  "nsStore pre = [
     NsParent \<mapsto> (tagged ''Parent'')\<lparr>md_ns := Some pre, md_nsURI := Some ''http://foo.bar'',
        md_children := [optChild ''kid'' NsKid]\<rparr>,
     NsKid \<mapsto> (tagged ''Kid'')\<lparr>md_ns := Some pre, md_nsURI := Some ''http://kid''\<rparr>]"

definition nsHeap :: "string option \<Rightarrow> nat heap" where
  "nsHeap own = [
     \<lparr>cls = NsParent, props = (\<lambda>p. VUndefined)(''kid'' := VObj 1), nsURI = own,
       rawDom = None, isSerializing = False\<rparr>,
     \<lparr>cls = NsKid, props = (\<lambda>p. VUndefined), nsURI = None, rawDom = None, isSerializing = False\<rparr>]"

definition nsElement :: "string \<Rightarrow> nsValue \<Rightarrow> nsValue \<Rightarrow> node" where
  "nsElement pre parentURI kidURI =
     Element (pre @ '':Parent'') (Some pre) (Some parentURI) []
       [Element (pre @ '':Kid'') (Some pre) (Some kidURI) [] []]"

lemmas ns_defs = NsParent_def NsKid_def nsStore_def nsHeap_def nsElement_def tagged_def
  optChild_def noNumbers_def

text \<open>
  Claim C6 fails on the code for a schema whose prefix is the name of a member of
  \<^verbatim>\<open>Object.prototype\<close>. With the prefix \<open>myns\<close> the rule holds: with no override
  the parent and the child get the default URIs of their schemas; with a caller's override
  for \<open>myns\<close> they get that; with the parent's own URI both get that one, the child
  through the override map. With the prefix \<open>constructor\<close> and no override at all,
  \<^verbatim>\<open>nsDef[ns]\<close> is the inherited member: the default URIs of the schemas are not
  used, and the namespace of both elements is that member. With the prefix
  \<open>__proto__\<close> and the parent's own URI, the write \<^verbatim>\<open>nsDef[ns] = this.nsURI\<close>
  creates no key: the child does not get the URI of the parent.
\<close>

theorem prototype_prefix_shadows_namespace:
  "toXmlObject (nsStore ''myns'') noNumbers 2 (nsHeap None) 0 None
     = Some (nsHeap None, Inr (nsElement ''myns'' (URI ''http://foo.bar'') (URI ''http://kid'')))
   \<and> toXmlObject (nsStore ''myns'') noNumbers 2 (nsHeap None) 0 (Some [''myns'' \<mapsto> ''http://caller''])
     = Some (nsHeap None, Inr (nsElement ''myns'' (URI ''http://caller'') (URI ''http://caller'')))
   \<and> toXmlObject (nsStore ''myns'') noNumbers 2 (nsHeap (Some ''http://own'')) 0
        (Some [''myns'' \<mapsto> ''http://caller''])
     = Some (nsHeap (Some ''http://own''),
             Inr (nsElement ''myns'' (URI ''http://own'') (URI ''http://own'')))
   \<and> toXmlObject (nsStore ''constructor'') noNumbers 2 (nsHeap None) 0 None
     = Some (nsHeap None,
             Inr (nsElement ''constructor'' (Member ''constructor'') (Member ''constructor'')))
   \<and> toXmlObject (nsStore ''__proto__'') noNumbers 2 (nsHeap (Some ''http://own'')) 0 None
     = Some (nsHeap (Some ''http://own''),
             Inr (nsElement ''__proto__'' (URI ''http://own'') (Member ''__proto__'')))"
  by (simp add: schema_defs serializer_defs ns_defs eval_nat_numeral)


section \<open>Deserialization\<close>

subsection \<open>Examples\<close>

text \<open>
  Numbers for the examples: a natural number or \<open>None\<close> for not-a-number, read from
  decimal digits and printed in decimal.
\<close>

definition isDigit :: "char \<Rightarrow> bool" where
  "isDigit c = (48 \<le> (of_char c :: nat) \<and> (of_char c :: nat) \<le> 57)"

definition readNumber :: "string \<Rightarrow> nat option" where
  "readNumber s =
     (if s \<noteq> [] \<and> list_all isDigit s
      then Some (foldl (\<lambda>acc c. 10 * acc + (of_char c - 48)) 0 s) else None)"

fun showNat :: "nat \<Rightarrow> string" where
  "showNat n = (if n < 10 then [''0123456789'' ! n]
     else showNat (n div 10) @ [''0123456789'' ! (n mod 10)])"

declare showNat.simps [simp del]

definition showNumber :: "nat option \<Rightarrow> string" where
  "showNumber x = (case x of None \<Rightarrow> ''NaN'' | Some n \<Rightarrow> showNat n)"

text \<open>
  The class \<open>Foo\<close> of the validation example of the README: two required numeric
  attributes with validators and a hook that runs when the instance is ready.
\<close>

definition NotTooSmall :: "nat option ValidatorDef" where
  "NotTooSmall v = (case v of VNum (Some n) \<Rightarrow> if n < 3 then Some ''value is too small'' else None
     | _ \<Rightarrow> None)"

definition NotTooBig :: "nat option ValidatorDef" where
  "NotTooBig v = (case v of VNum (Some n) \<Rightarrow> if n > 6 then Some ''value is too big'' else None
     | _ \<Rightarrow> None)"

definition validateOnReady :: "nat option inst \<Rightarrow> string + nat option inst" where
  "validateOnReady this =
     (case (i_props this ''attr1'', i_props this ''attr2'') of
        (VNum (Some a), VNum (Some b)) \<Rightarrow>
          if a + b > 10 then Inl ''value sum is too big'' else Inr this
      | _ \<Rightarrow> Inr this)"

definition Foo :: proto where
  "Foo = [''Foo'', ''XMLElement'']"

definition numAttr :: "string \<Rightarrow> nat option ValidatorDef list \<Rightarrow> nat option AttrDef" where
  "numAttr p vs = \<lparr>a_prop = p, a_defined = True, a_name = None, a_typ = Some TNumber,
     a_required = True, a_converter = None, a_validator = Some vs, a_ns = None, a_nsURI = None\<rparr>"

definition readmeStore :: "nat option store" where
  "readmeStore = [Foo \<mapsto> emptyMetadata\<lparr>md_defined := True, md_name := Some ''Foo'',
     md_tag := Some ''Foo'',
     md_attrs := [numAttr ''attr1'' [NotTooSmall], numAttr ''attr2'' [NotTooBig, NotTooSmall]],
     md_readyFunc := Some validateOnReady\<rparr>]"

definition fooNode :: "(string \<times> string) list \<Rightarrow> node" where
  "fooNode as = Element ''Foo'' None None (map (\<lambda>(n, v). AttrNode n None None v) as) []"

lemmas parser_defs = parseAttr_def fieldNameOf_def convertValue_def assignText_def trim_def
  childNameOf_def isWhiteSpace_def

lemmas readme_defs = readNumber_def isDigit_def showNumber_def NotTooSmall_def NotTooBig_def
  validateOnReady_def Foo_def numAttr_def readmeStore_def fooNode_def





















text \<open>
  A class \<open>Derived\<close> with no tag of its own under a class \<open>Base\<close> that has one, and
  a class \<open>Holder\<close> with a child of class \<open>Derived\<close>.
\<close>

definition Base :: proto where
  "Base = [''Base'', ''XMLElement'']"

definition Derived :: proto where
  "Derived = ''Derived'' # Base"

definition Holder :: proto where
  "Holder = [''Holder'', ''XMLElement'']"

definition untaggedStore :: "nat store" where
  "untaggedStore = [Base \<mapsto> tagged ''Base'',
     Holder \<mapsto> (tagged ''Holder'')\<lparr>md_children := [optChild ''d'' Derived]\<rparr>]"

lemmas untagged_defs = Base_def Derived_def Holder_def untaggedStore_def tagged_def optChild_def

text \<open>An object of class \<open>Foo\<close> whose required \<open>attr1\<close> is absent.\<close>

definition fooObj :: "nat option obj" where
  "fooObj = \<lparr>cls = Foo, props = (\<lambda>p. VUndefined)(''attr2'' := VNum (Some 5)), nsURI = None,
     rawDom = None, isSerializing = False\<rparr>"

subsection \<open>Definitions for the statements\<close>










text \<open>
  A store with other required flags: \<open>g\<close> gives the flag for each prototype and
  property.
\<close>

definition withRequired :: "(proto \<Rightarrow> string \<Rightarrow> bool) \<Rightarrow> 'n store \<Rightarrow> 'n store" where
  "withRequired g R =
     (\<lambda>p. map_option
        (\<lambda>m. m\<lparr>md_attrs := map (\<lambda>d. d\<lparr>a_required := g p (a_prop d)\<rparr>) (md_attrs m)\<rparr>) (R p))"

definition sameButRequired :: "'n AttrEntry \<Rightarrow> 'n AttrEntry \<Rightarrow> bool" where
  "sameButRequired e' e =
     (\<exists>b m'. e' = e\<lparr>a_required := b, e_md := m'\<rparr> \<and> md_attrNameGen m' = md_attrNameGen (e_md e))"

subsection \<open>What a successful call went through\<close>

lemma parseXMLElement_Inr:
  assumes "parseXMLElement R pf T (Element nm pre uri attrs chs) = Inr inst"
  shows "\<exists>tg attrMap ps1 childMap0 childMap ps2 ps3.
     md_tag (getMetadata R T) = Some tg
   \<and> parseAttrs pf attrs (getAttrMap R T, \<lambda>p. VUndefined) = Inr (attrMap, ps1)
   \<and> getChildMap R T = Inr childMap0
   \<and> parseChildNodes R pf chs childMap0 = Inr childMap
   \<and> assignText (getTextValueDef R T) (trim (textContent (Element nm pre uri attrs chs))) ps1 = Inr ps2
   \<and> assignChildren childMap ps2 = Inr ps3
   \<and> checkRequired attrMap = None
   \<and> (case md_readyFunc (getMetadata R T) of
         None \<Rightarrow> inst = Inst T ps3 uri (Some (Element nm pre uri attrs chs))
       | Some f \<Rightarrow> f (Inst T ps3 uri (Some (Element nm pre uri attrs chs))) = Inr inst)"
  using assms by (auto split: option.splits sum.splits prod.splits)

lemma map_of_recUpdate: "map_of (recUpdate m k v) = (map_of m)(k \<mapsto> v)"
  by (induction m) (auto simp: fun_eq_iff)

lemma recGet_recUpdate:
  "recGet (recUpdate m k v) n = (if n = k then Own v else recGet m n)"
  by (simp add: recGet_def map_of_recUpdate)

lemma recGet_Own_mem: "recGet m k = Own v \<Longrightarrow> (k, v) \<in> set m"
  by (auto simp: recGet_def split: option.splits if_splits dest: map_of_SomeD)





























lemma convertValue_exist [simp]: "convertValue pf (en\<lparr>exist := b\<rparr>) v = convertValue pf en v"
proof -
  have sel: "a_converter (en\<lparr>exist := b\<rparr>) = a_converter en"
    "a_typ (en\<lparr>exist := b\<rparr>) = a_typ en" "a_prop (en\<lparr>exist := b\<rparr>) = a_prop en"
    by simp_all
  show ?thesis unfolding convertValue_def sel by (rule refl)
qed





subsection \<open>The decimal literal at the start of a text\<close>












subsection \<open>Types without a tag, attributes without a value\<close>

lemma getChildMapLevel_error: "getChildMapLevel R ds m = Inl e \<Longrightarrow> e = TagMustBeDefined"
  by (induction ds arbitrary: m) (auto split: option.splits lookup.splits)

lemma getChildMapLevel_untagged:
  "d \<in> set ds \<Longrightarrow> md_tag (getMetadata R (c_clazz d)) = None \<Longrightarrow>
   getChildMapLevel R ds m = Inl TagMustBeDefined"
  by (induction ds arbitrary: m) (auto split: option.splits lookup.splits)

lemma getChildMapChain_untagged:
  "obj \<in> set objs \<Longrightarrow> d \<in> set (md_children (getMetadata R obj)) \<Longrightarrow>
   md_tag (getMetadata R (c_clazz d)) = None \<Longrightarrow>
   getChildMapChain R objs m = Inl TagMustBeDefined"
proof (induction objs arbitrary: m)
  case Nil
  then show ?case by simp
next
  case (Cons o1 objs)
  show ?case
  proof (cases "getChildMapLevel R (md_children (getMetadata R o1)) m")
    case (Inl e)
    with getChildMapLevel_error [OF Inl] show ?thesis by simp
  next
    case (Inr m1)
    with getChildMapLevel_untagged [OF Cons.prems(2,3), of m] have "obj \<noteq> o1" by auto
    with Cons.prems(1) have "obj \<in> set objs" by simp
    from Cons.IH [OF this Cons.prems(2,3)] Inr show ?thesis by simp
  qed
qed

lemma parseAttr_untouched:
  "parseAttr pf a (m, ps) = Inr (m', ps') \<Longrightarrow>
   attrPrefix a = Some ''xmlns'' \<or> attrNodeName a = ''xmlns'' \<or> fieldNameOf a \<noteq> n \<Longrightarrow>
   recGet m' n = recGet m n"
  by (auto simp: parseAttr_def Let_def recGet_recUpdate
      split: if_splits lookup.splits sum.splits option.splits)

lemma parseAttrs_untouched:
  "parseAttrs pf as (m, ps) = Inr (m', ps') \<Longrightarrow>
   \<forall>a \<in> set as. attrPrefix a = Some ''xmlns'' \<or> attrNodeName a = ''xmlns'' \<or> fieldNameOf a \<noteq> n \<Longrightarrow>
   recGet m' n = recGet m n"
proof (induction as arbitrary: m ps)
  case Nil
  then show ?case by simp
next
  case (Cons a as)
  from Cons.prems(1) obtain m1 ps1 where
    s: "parseAttr pf a (m, ps) = Inr (m1, ps1)" and r: "parseAttrs pf as (m1, ps1) = Inr (m', ps')"
    by (auto split: sum.splits)
  from parseAttr_untouched [OF s, of n] Cons.prems(2) have "recGet m1 n = recGet m n" by simp
  with Cons.IH [OF r] Cons.prems(2) show ?case by simp
qed

lemma checkRequired_missing:
  "(n, e) \<in> set m \<Longrightarrow> \<not> exist e \<Longrightarrow> a_required e \<Longrightarrow> checkRequired m \<noteq> None"
  by (induction m) auto

lemma mostSpecificAttrNamed_exist:
  "mostSpecificAttrNamed R objs n = Some e \<Longrightarrow> \<not> exist e"
  by (induction objs)
    (auto simp: mkAttrMapEntry_def AttrDef.defs AttrMapEntry.defs split: option.splits)

lemma getAttrMap_exist: "recGet (getAttrMap R T) n = Own e \<Longrightarrow> \<not> exist e"
  by (auto simp: getAttrMap_def getAttrMapChain_recGet recGet_Nil
      split: if_splits option.splits dest: mostSpecificAttrNamed_exist)

lemma required_missing_fails:
  assumes "recGet (getAttrMap R T) n = Own e" "a_required e"
    "\<forall>a \<in> set attrs. attrPrefix a = Some ''xmlns'' \<or> attrNodeName a = ''xmlns'' \<or> fieldNameOf a \<noteq> n"
  shows "\<exists>err. parseXMLElement R pf T (Element nm pre uri attrs chs) = Inl err"
proof (cases "parseXMLElement R pf T (Element nm pre uri attrs chs)")
  case (Inl err)
  then show ?thesis by simp
next
  case (Inr inst)
  from parseXMLElement_Inr [OF Inr] obtain attrMap ps1 where
    pa: "parseAttrs pf attrs (getAttrMap R T, \<lambda>p. VUndefined) = Inr (attrMap, ps1)"
    and cr: "checkRequired attrMap = None"
    by auto
  from parseAttrs_untouched [OF pa assms(3)] assms(1) have "recGet attrMap n = Own e" by simp
  from recGet_Own_mem [OF this] getAttrMap_exist [OF assms(1)] assms(2) cr
  show ?thesis by (auto dest: checkRequired_missing)
qed

subsection \<open>The required flag and the serializer\<close>

lemma getMetadata_withRequired:
  "getMetadata (withRequired g R) p =
     (getMetadata R p)\<lparr>md_attrs := map (\<lambda>d. d\<lparr>a_required := g p (a_prop d)\<rparr>)
        (md_attrs (getMetadata R p))\<rparr>"
  by (cases "R p") (simp_all add: getMetadata_def withRequired_def emptyMetadata_def)

lemma serializeAttr_sameButRequired:
  assumes "sameButRequired e' e"
  shows "serializeAttr nts ps e' elem = serializeAttr nts ps e elem"
proof -
  from assms obtain b m' where e': "e' = e\<lparr>a_required := b, e_md := m'\<rparr>"
    and g: "md_attrNameGen m' = md_attrNameGen (e_md e)"
    unfolding sameButRequired_def by blast
  have sel: "a_defined e' = a_defined e" "a_prop e' = a_prop e" "a_name e' = a_name e"
    "a_converter e' = a_converter e" "a_ns e' = a_ns e" "a_nsURI e' = a_nsURI e"
    "md_attrNameGen (e_md e') = md_attrNameGen (e_md e)"
    using e' g by simp_all
  show ?thesis
    unfolding serializeAttr_def attrNameOf_def sel by (rule refl)
qed

lemma serializeAttrs_sameButRequired:
  "list_all2 sameButRequired es' es \<Longrightarrow>
   serializeAttrs nts ps es' elem = serializeAttrs nts ps es elem"
proof (induction es' es arbitrary: elem rule: list_all2_induct)
  case Nil
  then show ?case by simp
next
  case (Cons e' es' e es)
  then show ?case
    by (simp add: serializeAttr_sameButRequired split: sum.splits)
qed

lemma sameButRequired_mkAttrEntry:
  "md_attrNameGen m' = md_attrNameGen m \<Longrightarrow>
   sameButRequired (mkAttrEntry (d\<lparr>a_required := b\<rparr>) m') (mkAttrEntry d m)"
  unfolding sameButRequired_def mkAttrEntry_def
  by (rule exI [of _ b], rule exI [of _ m']) (simp add: AttrDef.defs AttrEntry.defs)

lemma getAttrListLevel_withRequired:
  assumes "md_attrNameGen m' = md_attrNameGen m"
  shows "list_all2 sameButRequired res' res \<Longrightarrow>
    list_all2 sameButRequired
      (fst (getAttrListLevel m' (map (\<lambda>d. d\<lparr>a_required := f (a_prop d)\<rparr>) ds) (res', P)))
      (fst (getAttrListLevel m ds (res, P)))
    \<and> snd (getAttrListLevel m' (map (\<lambda>d. d\<lparr>a_required := f (a_prop d)\<rparr>) ds) (res', P))
      = snd (getAttrListLevel m ds (res, P))"
proof (induction ds arbitrary: res res' P)
  case Nil
  then show ?case by simp
next
  case (Cons d ds)
  show ?case
  proof (cases "a_prop d \<in> P")
    case True
    with Cons.IH [OF Cons.prems, of P] show ?thesis by simp
  next
    case False
    have "list_all2 sameButRequired (res' @ [mkAttrEntry (d\<lparr>a_required := f (a_prop d)\<rparr>) m'])
        (res @ [mkAttrEntry d m])"
      using Cons.prems sameButRequired_mkAttrEntry [OF assms]
      by (simp add: list_all2_appendI)
    from Cons.IH [OF this, of "insert (a_prop d) P"] False show ?thesis by simp
  qed
qed

lemma getAttrListChain_withRequired:
  "list_all2 sameButRequired res' res \<Longrightarrow>
    list_all2 sameButRequired
      (fst (getAttrListChain (withRequired g R) objs (res', P)))
      (fst (getAttrListChain R objs (res, P)))"
proof (induction objs arbitrary: res res' P)
  case Nil
  then show ?case by simp
next
  case (Cons obj objs)
  let ?m = "getMetadata R obj"
  let ?m' = "getMetadata (withRequired g R) obj"
  have g: "md_attrNameGen ?m' = md_attrNameGen ?m"
    by (simp add: getMetadata_withRequired)
  have a: "md_attrs ?m' = map (\<lambda>d. d\<lparr>a_required := g obj (a_prop d)\<rparr>) (md_attrs ?m)"
    by (simp add: getMetadata_withRequired)
  obtain r1 P1 where l: "getAttrListLevel ?m (md_attrs ?m) (res, P) = (r1, P1)"
    by (cases "getAttrListLevel ?m (md_attrs ?m) (res, P)")
  obtain r1' P1' where l': "getAttrListLevel ?m' (md_attrs ?m') (res', P) = (r1', P1')"
    by (cases "getAttrListLevel ?m' (md_attrs ?m') (res', P)")
  from getAttrListLevel_withRequired [OF g Cons.prems, of "g obj" "md_attrs ?m" P] a l l'
  have "list_all2 sameButRequired r1' r1" "P1' = P1" by simp_all
  with Cons.IH [of r1' r1 P1] l l' show ?case by simp
qed

lemma getAttrList_withRequired:
  "list_all2 sameButRequired (getAttrList (withRequired g R) T) (getAttrList R T)"
  unfolding getAttrList_def by (rule getAttrListChain_withRequired) simp

lemma getChildListChain_withRequired:
  "getChildListChain (withRequired g R) objs acc = getChildListChain R objs acc"
proof (induction objs arbitrary: acc)
  case Nil
  then show ?case by simp
next
  case (Cons obj objs)
  then show ?case
    by (cases acc) (simp add: getMetadata_withRequired split: prod.splits)
qed

lemma getTextValueDefChain_withRequired:
  "getTextValueDefChain (withRequired g R) objs = getTextValueDefChain R objs"
  by (induction objs) (simp_all add: getMetadata_withRequired split: option.splits)

lemma getChildList_withRequired: "getChildList (withRequired g R) T = getChildList R T"
  by (simp add: getChildList_def getChildListChain_withRequired)

lemma getTextValueDef_withRequired: "getTextValueDef (withRequired g R) T = getTextValueDef R T"
  by (simp add: getTextValueDef_def getTextValueDefChain_withRequired)

lemma serializeAttrs_withRequired:
  "serializeAttrs nts ps (getAttrList (withRequired g R) T) elem
   = serializeAttrs nts ps (getAttrList R T) elem"
  by (rule serializeAttrs_sameButRequired) (rule getAttrList_withRequired)

lemma effectiveNamespace_md_attrs:
  "effectiveNamespace (m\<lparr>md_attrs := as\<rparr>) own nsDef = effectiveNamespace m own nsDef"
  by (simp add: effectiveNamespace_def Let_def)

lemma createElem_md_attrs: "createElem (m\<lparr>md_attrs := as\<rparr>) ns uri = createElem m ns uri"
  by (simp add: createElem_def tagString_def)

lemma md_rawOutput_md_attrs: "md_rawOutput (m\<lparr>md_attrs := as\<rparr>) = md_rawOutput m"
  by simp

lemma tryBlock_withRequired:
  "tryBlock rec (withRequired g R) nts (m\<lparr>md_attrs := as\<rparr>) h this nsDef
   = tryBlock rec R nts m h this nsDef"
  unfolding tryBlock_def getChildList_withRequired getTextValueDef_withRequired
    serializeAttrs_withRequired effectiveNamespace_md_attrs createElem_md_attrs
    md_rawOutput_md_attrs
  by (rule refl)

lemma toXmlObject_withRequired:
  "toXmlObject (withRequired g R) nts depth = toXmlObject R nts depth"
proof (induction depth)
  case 0
  then show ?case by simp
next
  case (Suc depth)
  have "requireMetadataAndClsName (withRequired g R) p =
      (case requireMetadataAndClsName R p of Inl e \<Rightarrow> Inl e
       | Inr m \<Rightarrow> Inr (m\<lparr>md_attrs := map (\<lambda>d. d\<lparr>a_required := g p (a_prop d)\<rparr>) (md_attrs m)\<rparr>))" for p
    by (simp add: requireMetadataAndClsName_def getMetadata_withRequired)
  then show ?case
    by (intro ext)
      (simp add: Suc tryBlock_withRequired split: sum.splits)
qed

lemma serializeAttrs_skips_nil:
  "serializeAttrs nts ps es elem =
   serializeAttrs nts ps (filter (\<lambda>e. \<not> (a_defined e \<and> isNil (ps (a_prop e)))) es) elem"
proof (induction es arbitrary: elem)
  case Nil
  then show ?case by simp
next
  case (Cons e es)
  show ?case
  proof (cases "a_defined e \<and> isNil (ps (a_prop e))")
    case True
    then have "serializeAttr nts ps e elem = Inr elem"
      by (simp add: serializeAttr_def)
    with True Cons.IH show ?thesis by simp
  next
    case False
    with Cons.IH show ?thesis by (simp split: sum.splits)
  qed
qed

subsection \<open>A type must declare its own tag\<close>

text \<open>
  Claim C8. A call of \<^verbatim>\<open>parseXMLElement\<close> with a type whose own metadata has no tag
  fails with "Tag must be defined on every node", on every node and whatever the metadata
  of its ancestors; so the tag is never inherited. A type that has, at any level of its
  chain, a child binding to a class with no tag of its own cannot be deserialized either:
  building its child map fails with that error, and the call fails with it unless an
  attribute of the node has failed before.
\<close>

theorem tag_not_inherited:
  "(md_tag (getMetadata R T) = None \<longrightarrow> parseXMLElement R pf T node = Inl TagMustBeDefined)
   \<and> (obj \<in> set (protoChain T) \<and> d \<in> set (md_children (getMetadata R obj))
        \<and> md_tag (getMetadata R (c_clazz d)) = None
      \<longrightarrow> getChildMap R T = Inl TagMustBeDefined
        \<and> (\<exists>e. parseXMLElement R pf T (Element nm pre uri attrs chs) = Inl e
             \<and> (e = TagMustBeDefined
                \<or> parseAttrs pf attrs (getAttrMap R T, \<lambda>p. VUndefined) = Inl e)))"
proof (intro conjI impI)
  assume "md_tag (getMetadata R T) = None"
  then show "parseXMLElement R pf T node = Inl TagMustBeDefined"
    by (cases node) simp_all
next
  assume a: "obj \<in> set (protoChain T) \<and> d \<in> set (md_children (getMetadata R obj))
        \<and> md_tag (getMetadata R (c_clazz d)) = None"
  then have cm: "getChildMap R T = Inl TagMustBeDefined"
    unfolding getChildMap_def
    using getChildMapChain_untagged [of obj "protoChain T" d R "[]"] by blast
  then show "getChildMap R T = Inl TagMustBeDefined" .
  show "\<exists>e. parseXMLElement R pf T (Element nm pre uri attrs chs) = Inl e
             \<and> (e = TagMustBeDefined
                \<or> parseAttrs pf attrs (getAttrMap R T, \<lambda>p. VUndefined) = Inl e)"
  proof (cases "md_tag (getMetadata R T)")
    case None
    then show ?thesis by simp
  next
    case (Some tg)
    show ?thesis
    proof (cases "parseAttrs pf attrs (getAttrMap R T, \<lambda>p. VUndefined)")
      case (Inl e)
      with Some show ?thesis by simp
    next
      case (Inr st)
      with Some cm show ?thesis by (cases st) simp
    qed
  qed
qed

text \<open>
  The theorem at the example: \<open>Derived\<close> has no tag though \<open>Base\<close> has one, and
  neither a node read as \<open>Derived\<close> nor a node read as \<open>Holder\<close> is deserialized.
\<close>

theorem tag_not_inherited_witness:
  "md_tag (getMetadata untaggedStore Base) = Some ''Base''
   \<and> md_tag (getMetadata untaggedStore Derived) = None
   \<and> parseXMLElement untaggedStore (\<lambda>s. 0) Derived (Element ''Base'' None None [] []) = Inl TagMustBeDefined
   \<and> Holder \<in> set (protoChain Holder)
   \<and> optChild ''d'' Derived \<in> set (md_children (getMetadata untaggedStore Holder))
   \<and> getChildMap untaggedStore Holder = Inl TagMustBeDefined
   \<and> parseXMLElement untaggedStore (\<lambda>s. 0) Holder (Element ''Holder'' None None [] []) = Inl TagMustBeDefined"
proof -
  have h1: "md_tag (getMetadata untaggedStore Derived) = None"
    by (simp add: schema_defs untagged_defs)
  have h0: "md_tag (getMetadata untaggedStore Base) = Some ''Base''"
    by (simp add: schema_defs untagged_defs)
  have h2: "Holder \<in> set (protoChain Holder)
      \<and> optChild ''d'' Derived \<in> set (md_children (getMetadata untaggedStore Holder))
      \<and> md_tag (getMetadata untaggedStore (c_clazz (optChild ''d'' Derived))) = None"
    by (simp add: schema_defs untagged_defs)
  have pa: "parseAttrs (\<lambda>s. 0) [] (getAttrMap untaggedStore Holder, \<lambda>p. VUndefined)
      \<noteq> Inl e" for e
    by simp
  from tag_not_inherited [of untaggedStore Derived "\<lambda>s. 0" "Element ''Base'' None None [] []"] h1
  have c1: "parseXMLElement untaggedStore (\<lambda>s. 0) Derived (Element ''Base'' None None [] [])
      = Inl TagMustBeDefined" by blast
  from tag_not_inherited [of untaggedStore Holder "\<lambda>s. 0" _ Holder "optChild ''d'' Derived"
      "''Holder''" None None "[]" "[]"] h2 pa
  have c2: "getChildMap untaggedStore Holder = Inl TagMustBeDefined
     \<and> parseXMLElement untaggedStore (\<lambda>s. 0) Holder (Element ''Holder'' None None [] []) = Inl TagMustBeDefined"
    by blast
  from h0 h1 h2 c1 c2 show ?thesis by blast
qed

subsection \<open>Unknown attributes and unknown child elements\<close>

text \<open>
  An attribute or a child element whose name is no key of the map and no member of
  \<^verbatim>\<open>Object.prototype\<close> is skipped.
\<close>

lemma unknown_attribute_skipped:
  "recGet attrMap (fieldNameOf a) = Absent \<Longrightarrow> parseAttr pf a (attrMap, ps) = Inr (attrMap, ps)"
  by (simp add: parseAttr_def)

lemma unknown_child_skipped:
  "recGet childMap (childNameOf nm) = Absent \<Longrightarrow>
   parseChildNodes R pf (Element nm pre uri attrs cs # chs) childMap = parseChildNodes R pf chs childMap"
  by simp

text \<open>
  Claim C7 fails on the code. The class \<open>Foo\<close> binds \<open>attr1\<close> and \<open>attr2\<close> only.
  The unknown attribute \<open>toString\<close> makes the call throw "@Attr must be defined", and
  the unknown child element \<open>constructor\<close> makes it raise a \<^verbatim>\<open>TypeError\<close>; the
  unknown attribute \<open>other\<close> and the unknown child element \<open>Unknown\<close> are skipped.
\<close>

theorem inherited_names_not_skipped:
  "parseXMLElement readmeStore readNumber Foo
     (fooNode [(''attr1'', ''4''), (''attr2'', ''5''), (''toString'', ''x'')])
     = Inl (AttrMustBeDefined None)
   \<and> parseXMLElement readmeStore readNumber Foo
     (Element ''Foo'' None None [AttrNode ''attr1'' None None ''4'', AttrNode ''attr2'' None None ''5'']
        [Element ''constructor'' None None [] []])
     = Inl TypeError
   \<and> map_sum id (\<lambda>i. (i_props i ''attr1'', i_props i ''attr2''))
       (parseXMLElement readmeStore readNumber Foo
         (Element ''Foo'' None None
            [AttrNode ''attr1'' None None ''4'', AttrNode ''attr2'' None None ''5'',
             AttrNode ''other'' None None ''x'']
            [Element ''Unknown'' None None [] []]))
     = Inr (VNum (Some 4), VNum (Some 5))"
  by (simp add: schema_defs parser_defs readme_defs)

subsection \<open>Cardinality of children\<close>








subsection \<open>Coercion of attribute values\<close>








subsection \<open>Required attributes\<close>

text \<open>
  Claim C9. \<^verbatim>\<open>toXmlObject\<close> does not read the required flag: it returns the same with
  any other required flags in the metadata. An attribute binding that is defined and whose
  property is null or undefined leaves the element as it is: the loop over the bindings
  gives the same as the loop over those that remain. Deserialization enforces the flag:
  when the node has no attribute of the name of a required binding,
  \<^verbatim>\<open>parseXMLElement\<close> fails.
\<close>

theorem required_only_on_input:
  "toXmlObject (withRequired g R) nts depth h this nsDef = toXmlObject R nts depth h this nsDef
   \<and> serializeAttrs nts ps es elem =
       serializeAttrs nts ps (filter (\<lambda>e. \<not> (a_defined e \<and> isNil (ps (a_prop e)))) es) elem
   \<and> (recGet (getAttrMap R T) n = Own e \<and> a_required e
        \<and> (\<forall>a \<in> set attrs. attrPrefix a = Some ''xmlns'' \<or> attrNodeName a = ''xmlns''
              \<or> fieldNameOf a \<noteq> n)
      \<longrightarrow> (\<exists>err. parseXMLElement R pf T (Element nm pre uri attrs chs) = Inl err))"
proof (intro conjI impI)
  show "toXmlObject (withRequired g R) nts depth h this nsDef = toXmlObject R nts depth h this nsDef"
    by (simp add: toXmlObject_withRequired)
  show "serializeAttrs nts ps es elem =
       serializeAttrs nts ps (filter (\<lambda>e. \<not> (a_defined e \<and> isNil (ps (a_prop e)))) es) elem"
    by (rule serializeAttrs_skips_nil)
next
  assume "recGet (getAttrMap R T) n = Own e \<and> a_required e
        \<and> (\<forall>a \<in> set attrs. attrPrefix a = Some ''xmlns'' \<or> attrNodeName a = ''xmlns''
              \<or> fieldNameOf a \<noteq> n)"
  then show "\<exists>err. parseXMLElement R pf T (Element nm pre uri attrs chs) = Inl err"
    using required_missing_fails [of R T n e attrs pf nm pre uri chs] by blast
qed

text \<open>
  The theorem at the example: the object without \<open>attr1\<close> serializes, with the flags
  as they are and with all flags cleared, and the node without \<open>attr1\<close> is refused.
\<close>

theorem required_only_on_input_witness:
  "toXmlObject readmeStore showNumber (Suc 0) [fooObj] 0 None
     = Some ([fooObj], Inr (Element ''Foo'' None None [AttrNode ''attr2'' None None ''5''] []))
   \<and> toXmlObject (withRequired (\<lambda>p a. False) readmeStore) showNumber (Suc 0) [fooObj] 0 None
     = Some ([fooObj], Inr (Element ''Foo'' None None [AttrNode ''attr2'' None None ''5''] []))
   \<and> recGet (getAttrMap readmeStore Foo) ''attr1''
       = Own (mkAttrMapEntry (numAttr ''attr1'' [NotTooSmall]) ''attr1'')
   \<and> a_required (mkAttrMapEntry (numAttr ''attr1'' [NotTooSmall]) ''attr1'')
   \<and> parseXMLElement readmeStore readNumber Foo (fooNode [(''attr2'', ''5'')])
     = Inl (RequiredAttributeNotExists (Some ''attr1''))"
proof -
  let ?e = "mkAttrMapEntry (numAttr ''attr1'' [NotTooSmall]) ''attr1''"
  have s: "toXmlObject readmeStore showNumber (Suc 0) [fooObj] 0 None
     = Some ([fooObj], Inr (Element ''Foo'' None None [AttrNode ''attr2'' None None ''5''] []))"
    by (simp add: schema_defs serializer_defs readme_defs fooObj_def showNat.simps)
  have g: "recGet (getAttrMap readmeStore Foo) ''attr1'' = Own ?e \<and> a_required ?e"
    by (simp add: schema_defs readme_defs)
  have u: "\<forall>a \<in> set [AttrNode ''attr2'' None None ''5'']. attrPrefix a = Some ''xmlns''
      \<or> attrNodeName a = ''xmlns'' \<or> fieldNameOf a \<noteq> ''attr1''"
    by (simp add: parser_defs)
  have p: "parseXMLElement readmeStore readNumber Foo (fooNode [(''attr2'', ''5'')])
     = Inl (RequiredAttributeNotExists (Some ''attr1''))"
    by (simp add: schema_defs parser_defs readme_defs)
  from required_only_on_input [of "\<lambda>p a. False" readmeStore showNumber "Suc 0" "[fooObj]" 0 None
      "\<lambda>p. VUndefined" "[]" "TextNode []" Foo "''attr1''" ?e "[AttrNode ''attr2'' None None ''5'']"
      readNumber "''Foo''" None None "[]"] s g u
  have w: "toXmlObject (withRequired (\<lambda>p a. False) readmeStore) showNumber (Suc 0) [fooObj] 0 None
     = Some ([fooObj], Inr (Element ''Foo'' None None [AttrNode ''attr2'' None None ''5''] []))"
    by simp
  show ?thesis
    using s w g p by (intro conjI) (simp_all only: simp_thms)
qed


end
